theory Spec2Isabelle
  imports Complex_Main "HOL-Library.Product_Lexorder"
begin

section \<open>Terrain Height Tools: the height map (module/geometry/height-map.mjs)\<close>

text \<open>
  A shallow embedding of the class \<open>HeightMap\<close>. JavaScript numbers are modelled as
  exact rationals: the operations met below are comparisons, \<open>Math.min\<close>,
  \<open>Math.max\<close>, one addition and one subtraction, and rounding plays no part in what is
  proved about them; the string printed for a number is a parameter. A field that may hold \<open>undefined\<close> is an \<open>option\<close>
  (\<open>None\<close> is \<open>undefined\<close>). Promises are run to completion in program
  order; a rejected promise or a thrown exception is the \<open>Inl\<close> of a sum, returned
  together with the object's state at the moment of the throw.
\<close>

subsection \<open>Data\<close>

type_synonym num = rat

text \<open>A number that may be \<open>undefined\<close>; after arithmetic \<open>None\<close> is NaN.\<close>
type_synonym jsnum = "num option"

text \<open>A grid position \<open>[row, col]\<close>.\<close>
type_synonym position = "int \<times> int"

text \<open>A point \<open>{x, y}\<close> and a line segment \<open>{p1, p2}\<close>; a polygon is its vertex list.\<close>
type_synonym point = "num \<times> num"
type_synonym edge = "point \<times> point"
type_synonym polygon = "point list"

record cell =
  position :: position
  terrainTypeId :: string
  height :: jsnum
  elevation :: jsnum

text \<open>One element of a history entry: the prior assignment of a position.\<close>
record revert =
  rev_position :: position
  rev_terrainTypeId :: "string option"
  rev_height :: jsnum
  rev_elevation :: jsnum

text \<open>\<open>HeightMapShape\<close>.\<close>
record shape =
  shape_polygon :: polygon
  shape_holes :: "polygon list"
  shape_terrainTypeId :: string
  shape_height :: jsnum
  shape_elevation :: jsnum

text \<open>The fields \<open>data\<close>, \<open>_history\<close> and \<open>#shapes\<close> of a \<open>HeightMap\<close>.\<close>
record heightmap =
  data :: "cell list"
  history :: "revert list list"
  shapes :: "shape list"

datatype error =
    InvalidHeight       \<comment> \<open>"`height` must be a positive, non-zero number."\<close>
  | InvalidElevation    \<comment> \<open>"`elevation` must be a positive number or zero."\<close>
  | MissingEdge         \<comment> \<open>"Invalid graph detected. Missing edge."\<close>
  | NoParentPolygon     \<comment> \<open>"Could not find a parent polygon for this hole."\<close>
  | TypeError           \<comment> \<open>a property read from \<open>undefined\<close>\<close>

record terrainType =
  tt_id :: string
  tt_usesHeight :: bool

text \<open>\<open>{x, y, h}\<close>, an end point of a line of sight ray.\<close>
record point3 =
  p_x :: num
  p_y :: num
  p_h :: num

text \<open>\<open>{x, y, h, t}\<close>, an end of an intersection region.\<close>
record position4 =
  pos_x :: num
  pos_y :: num
  pos_h :: num
  pos_t :: num

text \<open>\<open>LineOfSightIntersectionRegion\<close>.\<close>
record region =
  region_start :: position4
  region_end :: position4
  skimmed :: bool

subsection \<open>What the class imports\<close>

text \<open>
  The modules \<open>api.mjs\<close>, \<open>utils/terrain-types.mjs\<close>, \<open>utils/grid-utils.mjs\<close>,
  \<open>line-segment.mjs\<close> and \<open>polygon.mjs\<close> and the globals \<open>game\<close> and
  \<open>CONST\<close> are not part of the sources at hand. What \<open>HeightMap\<close> calls of them
  is a parameter of the model: the fields of \<open>game\<close> (the terrain catalogue and the
  canvas) and of \<open>geometry\<close> (points, line segments and polygons). The decimal string
  that the language prints for a number is a parameter too, kept with \<open>game\<close>.
\<close>

record game =
  getTerrainTypes :: "terrainType list"
  getTerrainType :: "string \<Rightarrow> terrainType option"
  getTerrainTypeMap :: "string \<Rightarrow> terrainType option"
  gridless :: bool        \<comment> \<open>\<open>game.canvas.grid.type === CONST.GRID_TYPES.GRIDLESS\<close>\<close>
  isHex :: bool
  grid_w :: num
  grid_h :: num
  canvasWidth :: num
  canvasHeight :: num
  getPixelsFromGridPosition :: "position \<Rightarrow> num \<times> num"
  getNeighbors :: "position \<Rightarrow> position list"
  numberToString :: "num \<Rightarrow> string"   \<comment> \<open>the string a template literal prints for a number\<close>

record geometry =
  getGridCellPolygon :: "position \<Rightarrow> polygon"
  polygonEdges :: "polygon \<Rightarrow> edge list"          \<comment> \<open>\<open>polygon.edges\<close>\<close>
  pointEquals :: "point \<Rightarrow> point \<Rightarrow> bool"       \<comment> \<open>\<open>p.equals(q)\<close>\<close>
  edgeEquals :: "edge \<Rightarrow> edge \<Rightarrow> bool"          \<comment> \<open>\<open>e.equals(f)\<close>\<close>
  angleBetween :: "edge \<Rightarrow> edge \<Rightarrow> num"         \<comment> \<open>\<open>e.angleBetween(f)\<close>\<close>
  clockwise :: "polygon \<Rightarrow> bool"                \<comment> \<open>\<open>polygon.edges[0].clockwise\<close>\<close>
  containsPolygon :: "polygon \<Rightarrow> polygon \<Rightarrow> bool"
  boundingBox_y1 :: "polygon \<Rightarrow> num"             \<comment> \<open>\<open>polygon.boundingBox.y1\<close>\<close>
  intersectsYAt :: "edge \<Rightarrow> num \<Rightarrow> num option"   \<comment> \<open>\<open>e.intersectsYAt(y)\<close>\<close>
  sweepRegions :: "shape \<Rightarrow> point3 \<Rightarrow> point3 \<Rightarrow> bool \<Rightarrow> region list"
    \<comment> \<open>lines 402 to 723 of \<open>getIntersectionsOfShape\<close>, after its two early returns\<close>

subsection \<open>Array helpers\<close>

text \<open>\<open>Array.prototype.findIndex\<close>; \<open>None\<close> is the result \<open>-1\<close>.\<close>
fun findIndex :: "('a \<Rightarrow> bool) \<Rightarrow> 'a list \<Rightarrow> nat option" where
  "findIndex P [] = None"
| "findIndex P (x # xs) = (if P x then Some 0 else map_option Suc (findIndex P xs))"

text \<open>\<open>xs.splice(i, 1)\<close>: the array without its element at index \<open>i\<close>.\<close>
definition splice1 :: "nat \<Rightarrow> 'a list \<Rightarrow> 'a list" where
  "splice1 i xs = take i xs @ drop (Suc i) xs"

text \<open>
  Modelled from the spec: \<open>groupBy\<close> of \<open>utils/array-utils.mjs\<close> is not among the
  sources. It groups the elements by key, the groups in the order in which their keys first
  occur and the elements of a group in their order in the array.
\<close>
fun groupInsert :: "'k \<Rightarrow> 'a \<Rightarrow> ('k \<times> 'a list) list \<Rightarrow> ('k \<times> 'a list) list" where
  "groupInsert k x [] = [(k, [x])]"
| "groupInsert k x ((k', xs) # gs) =
     (if k = k' then (k', xs @ [x]) # gs else (k', xs) # groupInsert k x gs)"

definition groupBy :: "('a \<Rightarrow> 'k) \<Rightarrow> 'a list \<Rightarrow> ('k \<times> 'a list) list" where
  "groupBy f xs = foldl (\<lambda>gs x. groupInsert (f x) x gs) [] xs"

text \<open>
  Modelled from the spec: \<open>distinctBy\<close> of \<open>utils/array-utils.mjs\<close> is not among the
  sources. It keeps, for every key, the first element that has it.
\<close>
fun distinctBy :: "'a list \<Rightarrow> ('a \<Rightarrow> 'k) \<Rightarrow> 'a list" where
  "distinctBy [] f = []"
| "distinctBy (x # xs) f = x # distinctBy (filter (\<lambda>y. f y \<noteq> f x) xs) f"

subsection \<open>Shape building: \<open>#combinePolygons\<close> and \<open>_recalculateShapes\<close>\<close>

text \<open>
  The nested loops that remove duplicate edges. When the edge at index \<open>i\<close> equals a
  later one, both are spliced out and the scan goes on at the same index; otherwise the
  edge stays and the scan moves on. Edges before \<open>i\<close> are never looked at again.
\<close>
function removeDuplicateEdges :: "geometry \<Rightarrow> edge list \<Rightarrow> edge list" where
  "removeDuplicateEdges lib [] = []"
| "removeDuplicateEdges lib (e # es) =
     (case findIndex (edgeEquals lib e) es of
        None \<Rightarrow> e # removeDuplicateEdges lib es
      | Some j \<Rightarrow> removeDuplicateEdges lib (splice1 j es))"
  by pat_completeness auto
termination
  by (relation "measure (\<lambda>(lib, es). length es)") (auto simp: splice1_def)

text \<open>The edges of \<open>allEdges\<close>, with their indices, that start where \<open>lastEdge\<close> ends.\<close>
definition nextEdgeCandidates :: "geometry \<Rightarrow> edge list \<Rightarrow> edge \<Rightarrow> (edge \<times> nat) list" where
  "nextEdgeCandidates lib allEdges lastEdge =
     filter (\<lambda>c. pointEquals lib (fst (fst c)) (snd lastEdge))
       (zip allEdges [0..<length allEdges])"

text \<open>
  The index of the next edge of the loop: the only candidate, or among several the first
  of smallest \<open>angleBetween\<close> (the sort is stable); no candidate throws.
\<close>
definition nextEdgeIndex :: "geometry \<Rightarrow> edge list \<Rightarrow> edge \<Rightarrow> error + nat" where
  "nextEdgeIndex lib allEdges lastEdge =
     (case nextEdgeCandidates lib allEdges lastEdge of
        [] \<Rightarrow> Inl MissingEdge
      | [c] \<Rightarrow> Inr (snd c)
      | cs \<Rightarrow>
          (case sort_key fst (map (\<lambda>c. (angleBetween lib lastEdge (fst c), snd c)) cs) of
             [] \<Rightarrow> Inl TypeError
           | a # _ \<Rightarrow> Inr (snd a)))"

lemma nextEdgeCandidates_index:
  "c \<in> set (nextEdgeCandidates lib allEdges lastEdge) \<Longrightarrow> snd c < length allEdges"
  by (auto simp: nextEdgeCandidates_def in_set_zip)

lemma nextEdgeIndex_less:
  assumes "nextEdgeIndex lib allEdges lastEdge = Inr idx"
  shows "idx < length allEdges"
proof -
  let ?cs = "nextEdgeCandidates lib allEdges lastEdge"
  let ?as = "map (\<lambda>c. (angleBetween lib lastEdge (fst c), snd c)) ?cs"
  have "idx \<in> snd ` set ?cs"
  proof (cases ?cs)
    case Nil
    with assms show ?thesis by (simp add: nextEdgeIndex_def)
  next
    case (Cons c cs')
    show ?thesis
    proof (cases cs')
      case Nil
      with Cons assms show ?thesis by (simp add: nextEdgeIndex_def)
    next
      case (Cons c' cs'')
      with \<open>?cs = c # cs'\<close> assms obtain a rest where
        srt: "sort_key fst ?as = a # rest" and idx: "idx = snd a"
        by (auto simp: nextEdgeIndex_def split: list.splits)
      have "a \<in> set (sort_key fst ?as)" using srt by simp
      then have "a \<in> set ?as" by simp
      then show ?thesis using idx by force
    qed
  qed
  then show ?thesis using nextEdgeCandidates_index by blast
qed

text \<open>
  The inner \<open>while\<close>: \<open>e0 # es\<close> is the array \<open>edges\<close>. It returns what is left
  of \<open>allEdges\<close> and the closed loop.
\<close>
function walkLoop :: "geometry \<Rightarrow> edge list \<Rightarrow> edge \<Rightarrow> edge list \<Rightarrow> error + (edge list \<times> edge list)" where
  "walkLoop lib allEdges e0 es =
     (if pointEquals lib (fst e0) (snd (last (e0 # es))) then Inr (allEdges, e0 # es)
      else (case nextEdgeIndex lib allEdges (last (e0 # es)) of
              Inl err \<Rightarrow> Inl err
            | Inr idx \<Rightarrow> walkLoop lib (splice1 idx allEdges) e0 (es @ [allEdges ! idx])))"
  by pat_completeness auto
termination
  by (relation "measure (\<lambda>(lib, allEdges, e0, es). length allEdges)")
     (auto simp: splice1_def dest!: nextEdgeIndex_less)

declare walkLoop.simps [simp del]

lemma walkLoop_length:
  "walkLoop lib allEdges e0 es = Inr (rest, edges) \<Longrightarrow> length rest \<le> length allEdges"
proof (induction lib allEdges e0 es rule: walkLoop.induct)
  case (1 lib allEdges e0 es)
  show ?case
  proof (cases "pointEquals lib (fst e0) (snd (last (e0 # es)))")
    case True
    with "1.prems" show ?thesis by (simp add: walkLoop.simps [of lib allEdges e0 es])
  next
    case False
    with "1.prems" obtain idx where
      idx: "nextEdgeIndex lib allEdges (last (e0 # es)) = Inr idx" and
      rec: "walkLoop lib (splice1 idx allEdges) e0 (es @ [allEdges ! idx]) = Inr (rest, edges)"
      by (auto simp: walkLoop.simps [of lib allEdges e0 es] split: sum.splits)
    from "1.IH" [OF False idx rec] have "length rest \<le> length (splice1 idx allEdges)" .
    then show ?thesis by (simp add: splice1_def)
  qed
qed

text \<open>The outer \<open>while (allEdges.length)\<close>: one closed loop after the other.\<close>
function walkAll :: "geometry \<Rightarrow> edge list \<Rightarrow> polygon list \<Rightarrow> error + polygon list" where
  "walkAll lib [] combinedPolygons = Inr combinedPolygons"
| "walkAll lib (e0 # allEdges) combinedPolygons =
     (case walkLoop lib allEdges e0 [] of
        Inl err \<Rightarrow> Inl err
      | Inr (rest, edges) \<Rightarrow> walkAll lib rest (combinedPolygons @ [map fst edges]))"
  by pat_completeness auto
termination
proof (relation "measure (\<lambda>(lib, allEdges, combinedPolygons). length allEdges)")
  show "wf (measure (\<lambda>(lib, allEdges, combinedPolygons). length allEdges))" by simp
next
  fix lib :: geometry and e0 :: edge and allEdges combinedPolygons x2 rest edges
  assume "walkLoop lib allEdges e0 [] = Inr x2" and "(rest, edges) = x2"
  then have "length rest \<le> length allEdges" using walkLoop_length by blast
  then show "((lib, rest, combinedPolygons @ [map fst edges]), (lib, e0 # allEdges, combinedPolygons))
      \<in> measure (\<lambda>(lib, allEdges, combinedPolygons). length allEdges)"
    by simp
qed

text \<open>\<open>solidPolygons[i].holes.push(holePolygon)\<close>.\<close>
definition pushHole :: "nat \<Rightarrow> polygon \<Rightarrow> shape list \<Rightarrow> shape list" where
  "pushHole i holePolygon solidPolygons =
     solidPolygons[i := (solidPolygons ! i)\<lparr>shape_holes := shape_holes (solidPolygons ! i) @ [holePolygon]\<rparr>]"

text \<open>
  \<open>containingPolygons\<close>, as the indices in \<open>solidPolygons\<close> of the shapes the filter
  keeps (the filter keeps references to the shape objects, which the pushes then change).
\<close>
definition containingPolygons :: "geometry \<Rightarrow> shape list \<Rightarrow> polygon \<Rightarrow> nat list" where
  "containingPolygons lib solidPolygons holePolygon =
     filter (\<lambda>i. containsPolygon lib (shape_polygon (solidPolygons ! i)) holePolygon)
       [0..<length solidPolygons]"

text \<open>
  What the filter \<open>x.intersectsAt && x.intersectsAt < testPoint.x\<close> lets through: the
  first conjunct is the truthiness of the number, so \<open>undefined\<close> and \<open>0\<close> fail it.
\<close>
definition crossesLeftOf :: "point \<Rightarrow> num option \<Rightarrow> bool" where
  "crossesLeftOf testPoint intersectsAt =
     (case intersectsAt of None \<Rightarrow> False | Some x \<Rightarrow> x \<noteq> 0 \<and> x < fst testPoint)"

text \<open>\<open>intersectsWithEdges\<close>: pairs of \<open>intersectsAt\<close> and the index of the shape.\<close>
definition intersectsWithEdges :: "geometry \<Rightarrow> shape list \<Rightarrow> nat list \<Rightarrow> point \<Rightarrow> (num option \<times> nat) list" where
  "intersectsWithEdges lib solidPolygons containing testPoint =
     concat (map (\<lambda>i.
       filter (\<lambda>x. crossesLeftOf testPoint (fst x))
         (map (\<lambda>edge. (intersectsYAt lib edge (snd testPoint), i))
            (polygonEdges lib (shape_polygon (solidPolygons ! i)))))
       containing)"

text \<open>The key of the sort \<open>(a, b) => b.intersectsAt - a.intersectsAt\<close>: descending.\<close>
definition descendingKey :: "num option \<times> nat \<Rightarrow> num" where
  "descendingKey x = (case fst x of None \<Rightarrow> 0 | Some v \<Rightarrow> - v)"

text \<open>The body of the loop over \<open>holePolygons\<close>.\<close>
definition assignHole :: "game \<Rightarrow> geometry \<Rightarrow> shape list \<Rightarrow> polygon \<Rightarrow> error + shape list" where
  "assignHole g lib solidPolygons holePolygon =
     (case containingPolygons lib solidPolygons holePolygon of
        [] \<Rightarrow> Inl NoParentPolygon
      | [i] \<Rightarrow> Inr (pushHole i holePolygon solidPolygons)
      | cs \<Rightarrow>
          (case find (\<lambda>p. snd p = boundingBox_y1 lib holePolygon) holePolygon of
             None \<Rightarrow> Inl TypeError
           | Some v \<Rightarrow>
               (let testPoint = (fst v, snd v + grid_h g * (5 / 100));
                    xs = intersectsWithEdges lib solidPolygons cs testPoint
                in if length xs = 0 then Inl NoParentPolygon
                   else (case sort_key descendingKey xs of
                           [] \<Rightarrow> Inl TypeError
                         | x # _ \<Rightarrow> Inr (pushHole (snd x) holePolygon solidPolygons)))))"

fun assignHoles :: "game \<Rightarrow> geometry \<Rightarrow> shape list \<Rightarrow> polygon list \<Rightarrow> error + shape list" where
  "assignHoles g lib solidPolygons [] = Inr solidPolygons"
| "assignHoles g lib solidPolygons (holePolygon # holePolygons) =
     (case assignHole g lib solidPolygons holePolygon of
        Inl err \<Rightarrow> Inl err
      | Inr solidPolygons' \<Rightarrow> assignHoles g lib solidPolygons' holePolygons)"

text \<open>
  \<open>#combinePolygons\<close>. The map \<open>polysAreHolesMap\<close> has the clockwise loops under
  \<open>false\<close> and the others under \<open>true\<close>, each in the order of \<open>combinedPolygons\<close>.
\<close>
definition combinePolygons :: "game \<Rightarrow> geometry \<Rightarrow> polygon list \<Rightarrow> string \<Rightarrow> jsnum \<Rightarrow> jsnum \<Rightarrow> error + shape list" where
  "combinePolygons g lib originalPolygons tid h e =
     (case walkAll lib (removeDuplicateEdges lib (concat (map (polygonEdges lib) originalPolygons))) [] of
        Inl err \<Rightarrow> Inl err
      | Inr combinedPolygons \<Rightarrow>
          (let solidPolygons =
                 map (\<lambda>p. \<lparr>shape_polygon = p, shape_holes = [], shape_terrainTypeId = tid,
                            shape_height = h, shape_elevation = e\<rparr>)
                   (filter (clockwise lib) combinedPolygons);
               holePolygons = filter (\<lambda>p. \<not> clockwise lib p) combinedPolygons
           in assignHoles g lib solidPolygons holePolygons))"

text \<open>
  The loop of \<open>_recalculateShapes\<close> over the groups, with \<open>#shapes\<close> as accumulator.
  An exception leaves in \<open>#shapes\<close> what the earlier groups pushed.
\<close>
fun recalculateGroups :: "game \<Rightarrow> geometry \<Rightarrow> ('k \<times> cell list) list \<Rightarrow> shape list \<Rightarrow> shape list \<times> error option" where
  "recalculateGroups g lib [] acc = (acc, None)"
| "recalculateGroups g lib ((k, cells) # groups) acc =
     (case cells of
        [] \<Rightarrow> (acc, Some TypeError)
      | c # _ \<Rightarrow>
          (case combinePolygons g lib (map (\<lambda>x. getGridCellPolygon lib (position x)) cells)
                  (terrainTypeId c) (height c) (elevation c) of
             Inl err \<Rightarrow> (acc, Some err)
           | Inr shs \<Rightarrow> recalculateGroups g lib groups (acc @ shs)))"

text \<open>What a template literal prints for a number that may be \<open>undefined\<close>.\<close>
definition templateString :: "game \<Rightarrow> jsnum \<Rightarrow> string" where
  "templateString g v = (case v of None \<Rightarrow> ''undefined'' | Some x \<Rightarrow> numberToString g x)"

text \<open>The key of a cell's group: \<open>`${x.terrainTypeId}.${x.height}.${x.elevation}`\<close>.\<close>
definition groupKey :: "game \<Rightarrow> cell \<Rightarrow> string" where
  "groupKey g x =
     terrainTypeId x @ ''.'' @ templateString g (height x) @ ''.'' @ templateString g (elevation x)"

text \<open>
  \<open>_recalculateShapes\<close>. The cells are grouped by the printed key, and the shapes of a
  group take the terrain type, height and elevation of its first cell.
\<close>
definition recalculateShapes :: "game \<Rightarrow> geometry \<Rightarrow> heightmap \<Rightarrow> heightmap \<times> error option" where
  "recalculateShapes g lib s =
     (if gridless g then (s\<lparr>shapes := []\<rparr>, None)
      else (let r = recalculateGroups g lib (groupBy (groupKey g) (data s)) []
            in (s\<lparr>shapes := fst r\<rparr>, snd r)))"

subsection \<open>The cell store and its history\<close>

definition maxHistoryItems :: nat where
  "maxHistoryItems = 10"

text \<open>\<open>get(row, col)\<close>: the first cell of \<open>data\<close> at the position.\<close>
definition get :: "heightmap \<Rightarrow> position \<Rightarrow> cell option" where
  "get s pos = find (\<lambda>c. position c = pos) (data s)"

text \<open>\<open>#sortData\<close>: rows first, then columns; the sort is stable.\<close>
definition sortData :: "cell list \<Rightarrow> cell list" where
  "sortData d = sort_key position d"

text \<open>
  \<open>#saveChanges\<close> drops the cells whose terrain type is no longer in the catalogue. The
  write to the scene (\<open>scene.setFlag\<close>) leaves the object as it is.
\<close>
definition saveChanges :: "game \<Rightarrow> heightmap \<Rightarrow> heightmap" where
  "saveChanges g s =
     s\<lparr>data := filter (\<lambda>x. terrainTypeId x \<in> set (map tt_id (getTerrainTypes g))) (data s)\<rparr>"

text \<open>The loop \<open>while (this._history.length > maxHistoryItems) this._history.shift()\<close>.\<close>
function shiftHistory :: "revert list list \<Rightarrow> revert list list" where
  "shiftHistory h = (if length h > maxHistoryItems then shiftHistory (tl h) else h)"
  by pat_completeness auto
termination
  by (relation "measure length") auto

declare shiftHistory.simps [simp del]

text \<open>\<open>#pushHistory\<close>.\<close>
definition pushHistory :: "revert list \<Rightarrow> heightmap \<Rightarrow> heightmap" where
  "pushHistory historyEntry s = s\<lparr>history := shiftHistory (history s @ [historyEntry])\<rparr>"

text \<open>
  The loop of \<open>paintCells\<close> over \<open>cells\<close>; it carries \<open>data\<close>, the local
  \<open>history\<close> and \<open>anyAdded\<close>. \<open>existing\<close> is the first cell at the position, and
  the assignments to its fields change that element of \<open>data\<close>.
\<close>
fun paintLoop :: "position list \<Rightarrow> string \<Rightarrow> num \<Rightarrow> num \<Rightarrow> bool \<Rightarrow> cell list \<Rightarrow> revert list \<Rightarrow> bool
    \<Rightarrow> cell list \<times> revert list \<times> bool" where
  "paintLoop [] tid h e overwrite d hist anyAdded = (d, hist, anyAdded)"
| "paintLoop (cell # cells) tid h e overwrite d hist anyAdded =
     (case findIndex (\<lambda>c. position c = cell) d of
        None \<Rightarrow>
          paintLoop cells tid h e overwrite
            (d @ [\<lparr>position = cell, terrainTypeId = tid, height = Some h, elevation = Some e\<rparr>])
            (hist @ [\<lparr>rev_position = cell, rev_terrainTypeId = None, rev_height = None,
                      rev_elevation = None\<rparr>])
            True
      | Some i \<Rightarrow>
          (let existing = d ! i in
           if \<not> overwrite then paintLoop cells tid h e overwrite d hist anyAdded
           else if terrainTypeId existing = tid \<and> height existing = Some h
                   \<and> elevation existing = Some e
           then paintLoop cells tid h e overwrite d hist anyAdded
           else paintLoop cells tid h e overwrite
                  (d[i := existing\<lparr>height := Some h, elevation := Some e, terrainTypeId := tid\<rparr>])
                  (hist @ [\<lparr>rev_position = cell, rev_terrainTypeId = Some (terrainTypeId existing),
                            rev_height = height existing, rev_elevation = elevation existing\<rparr>])
                  anyAdded))"

text \<open>
  What \<open>paintCells\<close> and \<open>eraseCells\<close> do once the local \<open>history\<close> is not
  empty: push it, save, recompute the shapes. An exception of the recomputation leaves
  the method after the push and the save.
\<close>
definition commitChanges :: "game \<Rightarrow> geometry \<Rightarrow> revert list \<Rightarrow> heightmap \<Rightarrow> heightmap \<times> (error + bool)" where
  "commitChanges g lib hist s =
     (if length hist > 0
      then (case recalculateShapes g lib (saveChanges g (pushHistory hist s)) of
              (s', Some err) \<Rightarrow> (s', Inl err)
            | (s', None) \<Rightarrow> (s', Inr True))
      else (s, Inr False))"

text \<open>
  \<open>paintCells(cells, terrainTypeId, height, elevation, { overwrite })\<close>, called with
  numbers for \<open>height\<close> and \<open>elevation\<close>, for which \<open>typeof\<close> is \<open>"number"\<close>.
  A terrain type that \<open>getTerrainType\<close> does not find makes the destructuring throw.
\<close>
definition paintCells :: "game \<Rightarrow> geometry \<Rightarrow> position list \<Rightarrow> string \<Rightarrow> num \<Rightarrow> num \<Rightarrow> bool \<Rightarrow> heightmap
    \<Rightarrow> heightmap \<times> (error + bool)" where
  "paintCells g lib cells tid h e overwrite s =
     (case getTerrainType g tid of
        None \<Rightarrow> (s, Inl TypeError)
      | Some tt \<Rightarrow>
          if tt_usesHeight tt \<and> h \<le> 0 then (s, Inl InvalidHeight)
          else if tt_usesHeight tt \<and> e < 0 then (s, Inl InvalidElevation)
          else (case paintLoop cells tid h e overwrite (data s) [] False of
                  (d, hist, anyAdded) \<Rightarrow>
                    commitChanges g lib hist (s\<lparr>data := (if anyAdded then sortData d else d)\<rparr>)))"

text \<open>The loop of \<open>eraseCells\<close>; the pushed object has no \<open>elevation\<close> property.\<close>
fun eraseLoop :: "position list \<Rightarrow> cell list \<Rightarrow> revert list \<Rightarrow> cell list \<times> revert list" where
  "eraseLoop [] d hist = (d, hist)"
| "eraseLoop (cell # cells) d hist =
     (case findIndex (\<lambda>c. position c = cell) d of
        None \<Rightarrow> eraseLoop cells d hist
      | Some idx \<Rightarrow>
          eraseLoop cells (splice1 idx d)
            (hist @ [\<lparr>rev_position = cell, rev_terrainTypeId = Some (terrainTypeId (d ! idx)),
                      rev_height = height (d ! idx), rev_elevation = None\<rparr>]))"

definition eraseCells :: "game \<Rightarrow> geometry \<Rightarrow> position list \<Rightarrow> heightmap \<Rightarrow> heightmap \<times> (error + bool)" where
  "eraseCells g lib cells s =
     (case eraseLoop cells (data s) [] of
        (d, hist) \<Rightarrow> commitChanges g lib hist (s\<lparr>data := d\<rparr>))"

text \<open>\<open>clear()\<close>.\<close>
definition clear :: "game \<Rightarrow> heightmap \<Rightarrow> heightmap \<times> bool" where
  "clear g s =
     (if length (data s) = 0 then (s, False)
      else ((saveChanges g (s\<lparr>data := []\<rparr>))\<lparr>shapes := []\<rparr>, True))"

text \<open>The loop of \<open>undo\<close> over \<open>revertChanges\<close>; it carries \<open>data\<close> and \<open>anyAdded\<close>.\<close>
fun undoLoop :: "revert list \<Rightarrow> cell list \<Rightarrow> bool \<Rightarrow> cell list \<times> bool" where
  "undoLoop [] d anyAdded = (d, anyAdded)"
| "undoLoop (r # rs) d anyAdded =
     (case (rev_terrainTypeId r, findIndex (\<lambda>c. position c = rev_position r) d) of
        (None, Some existingIndex) \<Rightarrow> undoLoop rs (splice1 existingIndex d) anyAdded
      | (Some tid, Some existingIndex) \<Rightarrow>
          undoLoop rs
            (d[existingIndex := (d ! existingIndex)\<lparr>terrainTypeId := tid, height := rev_height r,
                                                       elevation := rev_elevation r\<rparr>])
            anyAdded
      | (Some tid, None) \<Rightarrow>
          undoLoop rs
            (d @ [\<lparr>position = rev_position r, terrainTypeId = tid, height = rev_height r,
                   elevation = rev_elevation r\<rparr>])
            True
      | (None, None) \<Rightarrow> undoLoop rs d anyAdded)"

text \<open>\<open>undo()\<close>. It does not recompute the shapes.\<close>
definition undo :: "game \<Rightarrow> heightmap \<Rightarrow> heightmap \<times> bool" where
  "undo g s =
     (if length (history s) \<le> 0 then (s, False)
      else (case undoLoop (last (history s)) (data s) False of
              (d, anyAdded) \<Rightarrow>
                (saveChanges g
                   (s\<lparr>history := butlast (history s),
                      data := (if anyAdded then sortData d else d)\<rparr>),
                 True)))"

subsection \<open>Flood fill\<close>

text \<open>
  The terrain type, height and elevation read from \<open>this.get(...cell) ?? {}\<close>: all three
  are \<open>undefined\<close> where no cell is painted.
\<close>
definition cellConfig :: "heightmap \<Rightarrow> position \<Rightarrow> string option \<times> jsnum \<times> jsnum" where
  "cellConfig s pos =
     (case get s pos of
        None \<Rightarrow> (None, None, None)
      | Some c \<Rightarrow> (Some (terrainTypeId c), height c, elevation c))"

definition getNeighboringFillCells :: "game \<Rightarrow> position \<Rightarrow> position list" where
  "getNeighboringFillCells g c =
     (if isHex g then getNeighbors g c
      else [(fst c, snd c - 1), (fst c - 1, snd c), (fst c + 1, snd c), (fst c, snd c + 1)])"

text \<open>The four tests that drop a neighbour which falls off the canvas.\<close>
definition onCanvas :: "game \<Rightarrow> position \<Rightarrow> bool" where
  "onCanvas g neighbor =
     (case getPixelsFromGridPosition g neighbor of
        (x, y) \<Rightarrow> \<not> x + grid_w g < 0 \<and> \<not> x \<ge> canvasWidth g
                  \<and> \<not> y + grid_h g < 0 \<and> \<not> y \<ge> canvasHeight g)"

text \<open>
  The loop of \<open>#findFillCells\<close> over \<open>visitQueue\<close>. Nothing in the class bounds it:
  it ends when the grid lets only finitely many cells pass the canvas tests, so the model
  is a partial function and \<open>None\<close> is a fill that does not return.
\<close>
partial_function (option) fillLoop ::
  "game \<Rightarrow> heightmap \<Rightarrow> string option \<times> jsnum \<times> jsnum \<Rightarrow> position list \<Rightarrow> position list \<Rightarrow> position list
    \<Rightarrow> position list option" where
  "fillLoop g s start visitedCells visitQueue cellsToPaint =
     (case visitQueue of
        [] \<Rightarrow> Some cellsToPaint
      | nextCell # rest \<Rightarrow>
          if nextCell \<in> set visitedCells then fillLoop g s start visitedCells rest cellsToPaint
          else if cellConfig s nextCell \<noteq> start
          then fillLoop g s start (nextCell # visitedCells) rest cellsToPaint
          else fillLoop g s start (nextCell # visitedCells)
                 (rest @ filter (onCanvas g) (getNeighboringFillCells g nextCell))
                 (cellsToPaint @ [nextCell]))"

definition findFillCells :: "game \<Rightarrow> heightmap \<Rightarrow> position \<Rightarrow> position list option" where
  "findFillCells g s startCell = fillLoop g s (cellConfig s startCell) [] [startCell] []"

text \<open>What \<open>fillCells\<close> returns: a boolean, or the array of its first \<open>return\<close>.\<close>
datatype fill_result = Boolean bool | Array "position list"

text \<open>\<open>fillCells(startCell, terrainTypeId, height, elevation)\<close>.\<close>
definition fillCells :: "game \<Rightarrow> geometry \<Rightarrow> position \<Rightarrow> string \<Rightarrow> num \<Rightarrow> num \<Rightarrow> heightmap
    \<Rightarrow> (heightmap \<times> (error + fill_result)) option" where
  "fillCells g lib startCell tid h e s =
     (case cellConfig s startCell of
        (startTerrainTypeId, startHeight, _) \<Rightarrow>
          if startTerrainTypeId = Some tid \<and> startHeight = Some h then Some (s, Inr (Array []))
          else (case findFillCells g s startCell of
                  None \<Rightarrow> None
                | Some cellsToPaint \<Rightarrow>
                    if length cellsToPaint = 0 then Some (s, Inr (Boolean False))
                    else (case paintCells g lib cellsToPaint tid h e True s of
                            (s', r) \<Rightarrow> Some (s', map_sum id Boolean r))))"

text \<open>\<open>eraseFillCells(startCell)\<close>.\<close>
definition eraseFillCells :: "game \<Rightarrow> geometry \<Rightarrow> position \<Rightarrow> heightmap \<Rightarrow> (heightmap \<times> (error + bool)) option" where
  "eraseFillCells g lib startCell s =
     (case findFillCells g s startCell of
        None \<Rightarrow> None
      | Some cellsToErase \<Rightarrow>
          if length cellsToErase = 0 then Some (s, Inr False)
          else Some (eraseCells g lib cellsToErase s))"

subsection \<open>Line of sight\<close>

text \<open>
  Arithmetic on a number that may be \<open>undefined\<close>: \<open>undefined\<close> converts to NaN, a
  sum or difference with NaN is NaN, \<open>Math.min\<close> and \<open>Math.max\<close> of a NaN are NaN,
  and every comparison with NaN is false.
\<close>
definition js_add :: "jsnum \<Rightarrow> jsnum \<Rightarrow> jsnum" where
  "js_add a b = (case (a, b) of (Some x, Some y) \<Rightarrow> Some (x + y) | _ \<Rightarrow> None)"

definition js_sub :: "jsnum \<Rightarrow> jsnum \<Rightarrow> jsnum" where
  "js_sub a b = (case (a, b) of (Some x, Some y) \<Rightarrow> Some (x - y) | _ \<Rightarrow> None)"

definition js_min :: "jsnum \<Rightarrow> jsnum \<Rightarrow> jsnum" where
  "js_min a b = (case (a, b) of (Some x, Some y) \<Rightarrow> Some (min x y) | _ \<Rightarrow> None)"

definition js_max :: "jsnum \<Rightarrow> jsnum \<Rightarrow> jsnum" where
  "js_max a b = (case (a, b) of (Some x, Some y) \<Rightarrow> Some (max x y) | _ \<Rightarrow> None)"

definition js_less :: "jsnum \<Rightarrow> jsnum \<Rightarrow> bool" where
  "js_less a b = (case (a, b) of (Some x, Some y) \<Rightarrow> x < y | _ \<Rightarrow> False)"

text \<open>\<open>Math.min.apply(null, a # as)\<close> and \<open>Math.max.apply(null, a # as)\<close>.\<close>
definition Math_min :: "jsnum \<Rightarrow> jsnum list \<Rightarrow> jsnum" where
  "Math_min a as = fold js_min as a"

definition Math_max :: "jsnum \<Rightarrow> jsnum list \<Rightarrow> jsnum" where
  "Math_max a as = fold js_max as a"

text \<open>
  \<open>getIntersectionsOfShape\<close>: its two early returns, then the sweep. \<open>shapeTop\<close> and
  \<open>shapeBottom\<close> are read here only where \<open>usesHeight\<close> holds, so their infinite
  values for a terrain without height do not occur.
\<close>
definition getIntersectionsOfShape :: "geometry \<Rightarrow> shape \<Rightarrow> point3 \<Rightarrow> point3 \<Rightarrow> bool \<Rightarrow> region list" where
  "getIntersectionsOfShape lib shape p1 p2 usesHeight =
     (let shapeTop = js_add (shape_elevation shape) (shape_height shape);
          shapeBottom = shape_elevation shape
      in if usesHeight \<and> js_less shapeTop (Some (p_h p1)) \<and> js_less shapeTop (Some (p_h p2)) then []
         else if usesHeight \<and> js_less (Some (p_h p1)) shapeBottom \<and> js_less (Some (p_h p2)) shapeBottom
         then []
         else sweepRegions lib shape p1 p2 usesHeight)"

text \<open>The loop of \<open>calculateLineOfSight\<close> over \<open>#shapes\<close>; an element \<open>{shape, regions}\<close> is a pair.\<close>
fun lineOfSightLoop :: "game \<Rightarrow> geometry \<Rightarrow> point3 \<Rightarrow> point3 \<Rightarrow> bool \<Rightarrow> shape list
    \<Rightarrow> (shape \<times> region list) list \<Rightarrow> (shape \<times> region list) list" where
  "lineOfSightLoop g lib p1 p2 includeNoHeightTerrain [] intersectionsByShape = intersectionsByShape"
| "lineOfSightLoop g lib p1 p2 includeNoHeightTerrain (shape # rest) intersectionsByShape =
     (case getTerrainTypeMap g (shape_terrainTypeId shape) of
        None \<Rightarrow> lineOfSightLoop g lib p1 p2 includeNoHeightTerrain rest intersectionsByShape
      | Some tt \<Rightarrow>
          if \<not> tt_usesHeight tt \<and> \<not> includeNoHeightTerrain
          then lineOfSightLoop g lib p1 p2 includeNoHeightTerrain rest intersectionsByShape
          else (let regions = getIntersectionsOfShape lib shape p1 p2 (tt_usesHeight tt)
                in if length regions > 0
                   then lineOfSightLoop g lib p1 p2 includeNoHeightTerrain rest
                          (intersectionsByShape @ [(shape, regions)])
                   else lineOfSightLoop g lib p1 p2 includeNoHeightTerrain rest intersectionsByShape))"

definition calculateLineOfSight :: "game \<Rightarrow> geometry \<Rightarrow> point3 \<Rightarrow> point3 \<Rightarrow> bool \<Rightarrow> heightmap
    \<Rightarrow> (shape \<times> region list) list" where
  "calculateLineOfSight g lib p1 p2 includeNoHeightTerrain s =
     lineOfSightLoop g lib p1 p2 includeNoHeightTerrain (shapes s) []"

subsection \<open>Flattening the regions\<close>

text \<open>An element of the flattened list; \<open>start\<close> is \<open>lastPosition\<close>, which begins \<open>undefined\<close>.\<close>
record flatRegion =
  flat_start :: "position4 option"
  flat_end :: position4
  flat_terrainTypeId :: string
  flat_height :: jsnum
  flat_elevation :: jsnum
  flat_skimmed :: bool

text \<open>The starts and ends of all regions, one for every \<open>t\<close>, sorted by \<open>t\<close>.\<close>
definition boundaries :: "(shape \<times> region list) list \<Rightarrow> position4 list" where
  "boundaries shapeRegions =
     sort_key pos_t
       (distinctBy
          (concat (map (\<lambda>s. concat (map (\<lambda>r. [region_start r, region_end r]) (snd s))) shapeRegions))
          pos_t)"

text \<open>
  \<open>activeRegions\<close> at a boundary of parameter \<open>t\<close>: for every shape the first of its
  regions with \<open>r.start.t < t && r.end.t >= t\<close>, the shapes without one filtered out.
\<close>
definition activeRegions :: "(shape \<times> region list) list \<Rightarrow> num \<Rightarrow> (shape \<times> region) list" where
  "activeRegions shapeRegions t =
     List.map_filter
       (\<lambda>s. map_option (Pair (fst s))
              (find (\<lambda>r. pos_t (region_start r) < t \<and> pos_t (region_end r) \<ge> t) (snd s)))
       shapeRegions"

text \<open>The object pushed to \<open>flatIntersections\<close> when \<open>a # as\<close> are the active regions.\<close>
definition flatIntersection :: "position4 option \<Rightarrow> position4 \<Rightarrow> shape \<times> region \<Rightarrow> (shape \<times> region) list \<Rightarrow> flatRegion" where
  "flatIntersection lastPosition boundary a as =
     (let elevation = Math_min (shape_elevation (fst a)) (map (\<lambda>r. shape_elevation (fst r)) as);
          height = js_sub
                     (Math_max (js_add (shape_height (fst a)) (shape_elevation (fst a)))
                        (map (\<lambda>r. js_add (shape_height (fst r)) (shape_elevation (fst r))) as))
                     elevation
      in \<lparr>flat_start = lastPosition, flat_end = boundary,
          flat_terrainTypeId = shape_terrainTypeId (fst a),
          flat_height = height, flat_elevation = elevation,
          flat_skimmed = (length (a # as) = 1 \<and> skimmed (snd a))\<rparr>)"

text \<open>The loop over \<open>boundaries\<close>; it carries \<open>lastPosition\<close> and \<open>flatIntersections\<close>.\<close>
fun flattenLoop :: "(shape \<times> region list) list \<Rightarrow> position4 list \<Rightarrow> position4 option \<Rightarrow> flatRegion list
    \<Rightarrow> flatRegion list" where
  "flattenLoop shapeRegions [] lastPosition flatIntersections = flatIntersections"
| "flattenLoop shapeRegions (boundary # rest) lastPosition flatIntersections =
     (case activeRegions shapeRegions (pos_t boundary) of
        [] \<Rightarrow> flattenLoop shapeRegions rest (Some boundary) flatIntersections
      | a # as \<Rightarrow>
          flattenLoop shapeRegions rest (Some boundary)
            (flatIntersections @ [flatIntersection lastPosition boundary a as]))"

definition flattenLineOfSightIntersectionRegions :: "(shape \<times> region list) list \<Rightarrow> flatRegion list" where
  "flattenLineOfSightIntersectionRegions shapeRegions =
     flattenLoop shapeRegions (boundaries shapeRegions) None []"

subsection \<open>Sequences of calls\<close>

text \<open>A call of \<open>paintCells\<close>, of \<open>eraseCells\<close> or of \<open>clear\<close>.\<close>
datatype operation =
    Paint "position list" string num num bool
  | Erase "position list"
  | Clear

fun applyOperation :: "game \<Rightarrow> geometry \<Rightarrow> operation \<Rightarrow> heightmap \<Rightarrow> heightmap \<times> (error + bool)" where
  "applyOperation g lib (Paint cells tid h e overwrite) s = paintCells g lib cells tid h e overwrite s"
| "applyOperation g lib (Erase cells) s = eraseCells g lib cells s"
| "applyOperation g lib Clear s = (case clear g s of (s', changed) \<Rightarrow> (s', Inr changed))"

text \<open>The calls that push a history entry when they change the map: all but \<open>clear\<close>.\<close>
fun recordsHistory :: "operation \<Rightarrow> bool" where
  "recordsHistory (Paint cells tid h e overwrite) = True"
| "recordsHistory (Erase cells) = True"
| "recordsHistory Clear = False"

text \<open>
  The calls of a list made one after the other, each of which changed the map (it returned
  \<open>true\<close>); \<open>None\<close> when one of them did not.
\<close>
fun mutations :: "game \<Rightarrow> geometry \<Rightarrow> operation list \<Rightarrow> heightmap \<Rightarrow> heightmap option" where
  "mutations g lib [] s = Some s"
| "mutations g lib (operation # rest) s =
     (case applyOperation g lib operation s of
        (s', Inr True) \<Rightarrow> mutations g lib rest s'
      | _ \<Rightarrow> None)"

subsection \<open>A square grid to run the model on\<close>

text \<open>
  A scene with a square grid of 100 pixel cells and two terrain types, and the geometry of
  axis-parallel edges and rectangles on it: the angle between two edges in quarter turns,
  the winding of a loop by the sign of its area, containment by bounding box, and a sweep
  that finds the whole ray inside every shape. They are inputs of the examples below.
\<close>

text \<open>Decimal digits of a natural number, and of a number with at most 17 digits after the point.\<close>
function showNat :: "nat \<Rightarrow> string" where
  "showNat n = (if n < 10 then [''0123456789'' ! n] else showNat (n div 10) @ [''0123456789'' ! (n mod 10)])"
  by pat_completeness auto
termination
  by (relation "measure id") auto

declare showNat.simps [simp del]

fun showFraction :: "nat \<Rightarrow> num \<Rightarrow> string" where
  "showFraction 0 x = []"
| "showFraction (Suc n) x =
     (if x = 0 then []
      else ''0123456789'' ! nat \<lfloor>x * 10\<rfloor> # showFraction n (x * 10 - of_int \<lfloor>x * 10\<rfloor>))"

definition showNum :: "num \<Rightarrow> string" where
  "showNum x =
     (if x < 0 then ''-'' else []) @ showNat (nat \<lfloor>\<bar>x\<bar>\<rfloor>)
     @ (if \<bar>x\<bar> = of_int \<lfloor>\<bar>x\<bar>\<rfloor> then [] else ''.'' @ showFraction 17 (\<bar>x\<bar> - of_int \<lfloor>\<bar>x\<bar>\<rfloor>))"

definition rockAndWater :: "terrainType list" where
  "rockAndWater = [\<lparr>tt_id = ''rock'', tt_usesHeight = True\<rparr>, \<lparr>tt_id = ''water'', tt_usesHeight = False\<rparr>]"

definition squareGame :: game where
  "squareGame =
     \<lparr>getTerrainTypes = rockAndWater,
      getTerrainType = (\<lambda>i. find (\<lambda>t. tt_id t = i) rockAndWater),
      getTerrainTypeMap = (\<lambda>i. find (\<lambda>t. tt_id t = i) rockAndWater),
      gridless = False, isHex = False, grid_w = 100, grid_h = 100,
      canvasWidth = 1000, canvasHeight = 1000,
      getPixelsFromGridPosition = (\<lambda>c. (of_int (snd c) * 100, of_int (fst c) * 100)),
      getNeighbors = (\<lambda>c. []),
      numberToString = showNum\<rparr>"

definition quarterTurns :: "edge \<Rightarrow> edge \<Rightarrow> num" where
  "quarterTurns e f =
     (let ex = fst (snd e) - fst (fst e); ey = snd (snd e) - snd (fst e);
          fx = fst (snd f) - fst (fst f); fy = snd (snd f) - snd (fst f);
          cross = ex * fy - ey * fx; dot = ex * fx + ey * fy
      in if cross = 0 then (if dot \<ge> 0 then 0 else 2) else if cross > 0 then 1 else 3)"

definition shoelace :: "polygon \<Rightarrow> num" where
  "shoelace p =
     sum_list (map (\<lambda>e. fst (fst e) * snd (snd e) - fst (snd e) * snd (fst e)) (zip p (rotate1 p)))"

definition insideBox :: "polygon \<Rightarrow> point \<Rightarrow> bool" where
  "insideBox outer p =
     ((\<exists>a \<in> set outer. fst a \<le> fst p) \<and> (\<exists>a \<in> set outer. fst p \<le> fst a)
      \<and> (\<exists>a \<in> set outer. snd a \<le> snd p) \<and> (\<exists>a \<in> set outer. snd p \<le> snd a))"

definition crossingX :: "edge \<Rightarrow> num \<Rightarrow> num option" where
  "crossingX e y =
     (let x1 = fst (fst e); y1 = snd (fst e); x2 = fst (snd e); y2 = snd (snd e)
      in if y1 = y2 \<or> y < min y1 y2 \<or> max y1 y2 < y then None
         else Some (x1 + (x2 - x1) * (y - y1) / (y2 - y1)))"

definition squareGeometry :: geometry where
  "squareGeometry =
     \<lparr>getGridCellPolygon = (\<lambda>c. let x = of_int (snd c) * 100; y = of_int (fst c) * 100
                               in [(x, y), (x + 100, y), (x + 100, y + 100), (x, y + 100)]),
      polygonEdges = (\<lambda>p. zip p (rotate1 p)),
      pointEquals = (\<lambda>p q. p = q),
      edgeEquals = (\<lambda>e f. e = f \<or> (fst e = snd f \<and> snd e = fst f)),
      angleBetween = quarterTurns,
      clockwise = (\<lambda>p. shoelace p > 0),
      containsPolygon = (\<lambda>outer inner. list_all (insideBox outer) inner),
      boundingBox_y1 = (\<lambda>p. fold min (map snd p) (snd (hd p))),
      intersectsYAt = crossingX,
      sweepRegions = (\<lambda>shape p1 p2 u.
        [\<lparr>region_start = \<lparr>pos_x = p_x p1, pos_y = p_y p1, pos_h = p_h p1, pos_t = 0\<rparr>,
          region_end = \<lparr>pos_x = p_x p2, pos_y = p_y p2, pos_h = p_h p2, pos_t = 1\<rparr>,
          skimmed = False\<rparr>])\<rparr>"

text \<open>A cell of the grid and a map with given cells, an empty history and no shapes.\<close>
definition cellAt :: "position \<Rightarrow> string \<Rightarrow> num \<Rightarrow> num \<Rightarrow> cell" where
  "cellAt pos tid h e = \<lparr>position = pos, terrainTypeId = tid, height = Some h, elevation = Some e\<rparr>"

definition mapOf :: "cell list \<Rightarrow> heightmap" where
  "mapOf cells = \<lparr>data = cells, history = [], shapes = []\<rparr>"

text \<open>A map in which the cell \<open>(0, 0)\<close> has been painted with rock of the given height and elevation.\<close>
definition paintedOnce :: "num \<Rightarrow> num \<Rightarrow> heightmap" where
  "paintedOnce h e = fst (paintCells squareGame squareGeometry [(0, 0)] ''rock'' h e True (mapOf []))"

text \<open>Fifteen calls that paint the cell \<open>(0, 0)\<close> with the heights 1 to 15.\<close>
definition fifteenPaints :: "operation list" where
  "fifteenPaints = map (\<lambda>i. Paint [(0, 0)] ''rock'' (of_nat i + 1) 0 True) [0..<15]"

text \<open>
  Fifteen calls that each change the map: the cell \<open>(0, 0)\<close> is painted and the map cleared
  in turn, eight paints and seven clears. The map they leave has a history of eight entries,
  one for each paint of the cell when it was empty.
\<close>
definition paintAndClear :: "operation list" where
  "paintAndClear = concat (replicate 7 [Paint [(0, 0)] ''rock'' 1 0 True, Clear]) @ [Paint [(0, 0)] ''rock'' 1 0 True]"

definition afterPaintAndClear :: heightmap where
  "afterPaintAndClear =
     \<lparr>data = [cellAt (0, 0) ''rock'' 1 0],
      history = replicate 8 [\<lparr>rev_position = (0, 0), rev_terrainTypeId = None, rev_height = None,
                              rev_elevation = None\<rparr>],
      shapes = [\<lparr>shape_polygon = [(0, 0), (100, 0), (100, 100), (0, 100)], shape_holes = [],
                 shape_terrainTypeId = ''rock'', shape_height = Some 1, shape_elevation = Some 0\<rparr>]\<rparr>"

text \<open>A map in which the cell \<open>(0, 0)\<close> was painted with rock of height 1 and then of height 2.\<close>
definition paintedTwice :: heightmap where
  "paintedTwice = fst (paintCells squareGame squareGeometry [(0, 0)] ''rock'' 2 0 True (paintedOnce 1 0))"

text \<open>A history element gives back the cell \<open>c\<close>: it holds its position and its assignment.\<close>
definition restores :: "revert \<Rightarrow> cell \<Rightarrow> bool" where
  "restores r c =
     (rev_position r = position c \<and> rev_terrainTypeId r = Some (terrainTypeId c)
      \<and> rev_height r = height c \<and> rev_elevation r = elevation c)"

subsection \<open>Faults of the shape building\<close>

text \<open>
  The three conditions under which the shape building throws, said of the run of its
  loops. \<open>loopStuck\<close>: the walk of one loop comes, now or after some more edges, to an
  end point at which no edge of \<open>allEdges\<close> starts while the loop is not closed.
  \<open>walkStuck\<close>: that happens in the first loop or, the loops before it closed, in a later one.
\<close>
inductive loopStuck :: "geometry \<Rightarrow> edge list \<Rightarrow> edge \<Rightarrow> edge list \<Rightarrow> bool" for lib where
  stuck_now:
    "\<not> pointEquals lib (fst e0) (snd (last (e0 # es))) \<Longrightarrow>
     \<forall>edge \<in> set allEdges. \<not> pointEquals lib (fst edge) (snd (last (e0 # es))) \<Longrightarrow>
     loopStuck lib allEdges e0 es"
| stuck_later:
    "\<not> pointEquals lib (fst e0) (snd (last (e0 # es))) \<Longrightarrow>
     nextEdgeIndex lib allEdges (last (e0 # es)) = Inr idx \<Longrightarrow>
     loopStuck lib (splice1 idx allEdges) e0 (es @ [allEdges ! idx]) \<Longrightarrow>
     loopStuck lib allEdges e0 es"

inductive walkStuck :: "geometry \<Rightarrow> edge list \<Rightarrow> bool" for lib where
  this_loop: "loopStuck lib allEdges e0 [] \<Longrightarrow> walkStuck lib (e0 # allEdges)"
| later_loop:
    "walkLoop lib allEdges e0 [] = Inr (rest, edges) \<Longrightarrow> walkStuck lib rest \<Longrightarrow>
     walkStuck lib (e0 # allEdges)"

text \<open>
  \<open>noParent\<close>: no boundary polygon contains the hole, or several do and no edge of theirs
  crosses the horizontal line through the test point on the left of it. \<open>holeOrphaned\<close>:
  that holds for the first hole or, the holes before it assigned, for a later one.
\<close>
definition noParent :: "game \<Rightarrow> geometry \<Rightarrow> shape list \<Rightarrow> polygon \<Rightarrow> bool" where
  "noParent g lib solidPolygons holePolygon =
     (let parents = filter (\<lambda>p. containsPolygon lib (shape_polygon p) holePolygon) solidPolygons
      in parents = [] \<or>
         (length parents > 1 \<and>
          (\<exists>v. find (\<lambda>p. snd p = boundingBox_y1 lib holePolygon) holePolygon = Some v \<and>
               (\<forall>p \<in> set parents. \<forall>edge \<in> set (polygonEdges lib (shape_polygon p)).
                  \<forall>x. intersectsYAt lib edge (snd v + grid_h g * (5 / 100)) = Some x \<longrightarrow> \<not> x < fst v))))"

inductive holeOrphaned :: "game \<Rightarrow> geometry \<Rightarrow> shape list \<Rightarrow> polygon list \<Rightarrow> bool" for g lib where
  this_hole: "noParent g lib solidPolygons holePolygon \<Longrightarrow> holeOrphaned g lib solidPolygons (holePolygon # holePolygons)"
| later_hole:
    "assignHole g lib solidPolygons holePolygon = Inr solidPolygons' \<Longrightarrow>
     holeOrphaned g lib solidPolygons' holePolygons \<Longrightarrow>
     holeOrphaned g lib solidPolygons (holePolygon # holePolygons)"

text \<open>
  A fault in the polygons of one group, in the groups of \<open>_recalculateShapes\<close> taken in
  order, and in the recomputation for a map.
\<close>
definition combineFault :: "game \<Rightarrow> geometry \<Rightarrow> polygon list \<Rightarrow> string \<Rightarrow> jsnum \<Rightarrow> jsnum \<Rightarrow> bool" where
  "combineFault g lib originalPolygons tid h e =
     (let allEdges = removeDuplicateEdges lib (concat (map (polygonEdges lib) originalPolygons))
      in walkStuck lib allEdges \<or>
         (\<exists>combinedPolygons. walkAll lib allEdges [] = Inr combinedPolygons \<and>
            holeOrphaned g lib
              (map (\<lambda>p. \<lparr>shape_polygon = p, shape_holes = [], shape_terrainTypeId = tid,
                         shape_height = h, shape_elevation = e\<rparr>)
                 (filter (clockwise lib) combinedPolygons))
              (filter (\<lambda>p. \<not> clockwise lib p) combinedPolygons)))"

inductive groupFault :: "game \<Rightarrow> geometry \<Rightarrow> ('k \<times> cell list) list \<Rightarrow> bool" for g lib where
  this_group:
    "combineFault g lib (map (\<lambda>x. getGridCellPolygon lib (position x)) (c # cells))
       (terrainTypeId c) (height c) (elevation c) \<Longrightarrow>
     groupFault g lib ((k, c # cells) # groups)"
| later_group:
    "combinePolygons g lib (map (\<lambda>x. getGridCellPolygon lib (position x)) (c # cells))
       (terrainTypeId c) (height c) (elevation c) = Inr shs \<Longrightarrow>
     groupFault g lib groups \<Longrightarrow>
     groupFault g lib ((k, c # cells) # groups)"

definition recomputeFault :: "game \<Rightarrow> geometry \<Rightarrow> heightmap \<Rightarrow> bool" where
  "recomputeFault g lib s =
     (\<not> gridless g \<and> groupFault g lib (groupBy (groupKey g) (data s)))"

subsection \<open>The flattened regions, said from the intervals\<close>

text \<open>
  A region spans the interval between two boundaries when it starts at or before the first
  and ends at or after the second. The active shapes of an interval are the shapes with a
  region spanning it, each with the first such region. \<open>lowest\<close> and \<open>highest\<close> say
  that a number is the minimum elevation and the maximum of elevation plus height among
  active shapes.
\<close>
definition spans :: "region \<Rightarrow> position4 \<Rightarrow> position4 \<Rightarrow> bool" where
  "spans r a b = (pos_t (region_start r) \<le> pos_t a \<and> pos_t b \<le> pos_t (region_end r))"

definition activeShapes :: "(shape \<times> region list) list \<Rightarrow> position4 \<Rightarrow> position4 \<Rightarrow> (shape \<times> region) list" where
  "activeShapes shapeRegions a b =
     List.map_filter (\<lambda>s. map_option (Pair (fst s)) (find (\<lambda>r. spans r a b) (snd s))) shapeRegions"

definition lowest :: "(shape \<times> region) list \<Rightarrow> num \<Rightarrow> bool" where
  "lowest active e =
     ((\<exists>a \<in> set active. shape_elevation (fst a) = Some e) \<and>
      (\<forall>a \<in> set active. \<forall>e'. shape_elevation (fst a) = Some e' \<longrightarrow> e \<le> e'))"

definition highest :: "(shape \<times> region) list \<Rightarrow> num \<Rightarrow> bool" where
  "highest active u =
     ((\<exists>a \<in> set active. \<exists>e h. shape_elevation (fst a) = Some e \<and> shape_height (fst a) = Some h \<and> u = e + h) \<and>
      (\<forall>a \<in> set active. \<forall>e h. shape_elevation (fst a) = Some e \<longrightarrow> shape_height (fst a) = Some h \<longrightarrow> e + h \<le> u))"

text \<open>What one turn of the loop over the boundaries appends, and all starts and ends.\<close>
definition entryList :: "(shape \<times> region list) list \<Rightarrow> position4 option \<Rightarrow> position4 \<Rightarrow> flatRegion list" where
  "entryList srs l b = (case activeRegions srs (pos_t b) of [] \<Rightarrow> [] | a # as \<Rightarrow> [flatIntersection l b a as])"

definition allPoints :: "(shape \<times> region list) list \<Rightarrow> position4 list" where
  "allPoints srs = concat (map (\<lambda>s. concat (map (\<lambda>r. [region_start r, region_end r]) (snd s))) srs)"

subsection \<open>Further inputs on the square grid\<close>

text \<open>A ring of eight cells around the cell \<open>(1, 1)\<close>, and a geometry in which no polygon contains another.\<close>
definition ring :: "cell list" where
  "ring = map (\<lambda>pos. cellAt pos ''rock'' 1 0) [(0, 0), (0, 1), (0, 2), (1, 0), (1, 2), (2, 0), (2, 1), (2, 2)]"

definition noContainment :: geometry where
  "noContainment = squareGeometry\<lparr>containsPolygon := (\<lambda>outer inner. False)\<rparr>"


text \<open>
  A ring of cells in the rows 0 to 6 and the columns -2 to 4 around a ring in the rows 2 to 4
  and the columns 0 to 2, and the four loops of their outline.
\<close>
definition nestedRings :: "position list" where
  "nestedRings =
     [(0, - 2), (0, - 1), (0, 0), (0, 1), (0, 2), (0, 3), (0, 4),
      (1, - 2), (1, 4), (2, - 2), (2, 4), (3, - 2), (3, 4), (4, - 2), (4, 4), (5, - 2), (5, 4),
      (6, - 2), (6, - 1), (6, 0), (6, 1), (6, 2), (6, 3), (6, 4),
      (2, 0), (2, 1), (2, 2), (3, 0), (3, 2), (4, 0), (4, 1), (4, 2)]"

definition outerRing :: polygon where
  "outerRing =
     [(- 200, 0), (- 100, 0), (0, 0), (100, 0), (200, 0), (300, 0), (400, 0), (500, 0),
      (500, 100), (500, 200), (500, 300), (500, 400), (500, 500), (500, 600), (500, 700),
      (400, 700), (300, 700), (200, 700), (100, 700), (0, 700), (- 100, 700), (- 200, 700),
      (- 200, 600), (- 200, 500), (- 200, 400), (- 200, 300), (- 200, 200), (- 200, 100)]"

definition outerHole :: polygon where
  "outerHole =
     [(0, 100), (- 100, 100), (- 100, 200), (- 100, 300), (- 100, 400), (- 100, 500), (- 100, 600),
      (0, 600), (100, 600), (200, 600), (300, 600), (400, 600),
      (400, 500), (400, 400), (400, 300), (400, 200), (400, 100), (300, 100), (200, 100), (100, 100)]"

definition innerRing :: polygon where
  "innerRing =
     [(0, 200), (100, 200), (200, 200), (300, 200), (300, 300), (300, 400), (300, 500),
      (200, 500), (100, 500), (0, 500), (0, 400), (0, 300)]"

definition innerHole :: polygon where
  "innerHole = [(200, 300), (100, 300), (100, 400), (200, 400)]"

definition rockShape :: "polygon \<Rightarrow> polygon list \<Rightarrow> shape" where
  "rockShape p hs = \<lparr>shape_polygon = p, shape_holes = hs, shape_terrainTypeId = ''rock'',
      shape_height = Some 1, shape_elevation = Some 0\<rparr>"

text \<open>
  A ray at height 5/2 along the line \<open>y = 100\<close>, between a shape of elevation 0 and height 3
  above it and a shape of elevation 2 and height 3 below it, and the regions in which it
  touches them.
\<close>
definition lowRock :: shape where
  "lowRock = \<lparr>shape_polygon = [(0, 0), (100, 0), (200, 0), (300, 0), (300, 100), (200, 100), (100, 100), (0, 100)],
      shape_holes = [], shape_terrainTypeId = ''rock'', shape_height = Some 3, shape_elevation = Some 0\<rparr>"

definition highRock :: shape where
  "highRock = \<lparr>shape_polygon = [(100, 100), (200, 100), (300, 100), (400, 100), (400, 200), (300, 200), (200, 200), (100, 200)],
      shape_holes = [], shape_terrainTypeId = ''rock'', shape_height = Some 3, shape_elevation = Some 2\<rparr>"

definition rayAt :: "num \<Rightarrow> position4" where
  "rayAt t = \<lparr>pos_x = 400 * t, pos_y = 100, pos_h = 5 / 2, pos_t = t\<rparr>"

definition overlapping :: "(shape \<times> region list) list" where
  "overlapping =
     [(lowRock, [\<lparr>region_start = rayAt 0, region_end = rayAt (3 / 4), skimmed = True\<rparr>]),
      (highRock, [\<lparr>region_start = rayAt (1 / 4), region_end = rayAt 1, skimmed = True\<rparr>])]"

text \<open>The last element of a history entry that is about a position.\<close>
definition lastRevert :: "revert list \<Rightarrow> position \<Rightarrow> revert option" where
  "lastRevert rs pos = find (\<lambda>r. rev_position r = pos) (rev rs)"

section \<open>Properties of the cell store\<close>

subsection \<open>Auxiliary facts\<close>

lemma findIndex_Some: "findIndex P xs = Some i \<Longrightarrow> i < length xs \<and> P (xs ! i)"
proof (induction xs arbitrary: i)
  case Nil
  then show ?case by simp
next
  case (Cons x xs)
  then show ?case by (auto split: if_splits)
qed

lemma distinct_map_sort_key: "distinct (map f (sort_key f xs)) = distinct (map f xs)"
  by (induction xs) (auto simp: sort_key_simps distinct_insort_key)

lemma set_splice1: "set (splice1 i xs) \<subseteq> set xs"
  by (auto simp: splice1_def dest: in_set_takeD in_set_dropD)

lemma shiftHistory_eq: "shiftHistory h = drop (length h - maxHistoryItems) h"
proof (induction h rule: shiftHistory.induct)
  case (1 h)
  show ?case
  proof (cases "length h > maxHistoryItems")
    case True
    then obtain x xs where h: "h = x # xs" by (cases h) auto
    from True 1 have "shiftHistory h = drop (length (tl h) - maxHistoryItems) (tl h)"
      by (simp add: shiftHistory.simps [of h])
    also have "\<dots> = drop (length h - maxHistoryItems) h"
      using True h by (simp add: Suc_diff_le drop_Cons split: nat.splits)
    finally show ?thesis .
  next
    case False
    then show ?thesis by (simp add: shiftHistory.simps [of h])
  qed
qed

lemma history_recalculateShapes [simp]: "history (fst (recalculateShapes g lib s)) = history s"
  by (simp add: recalculateShapes_def Let_def)

lemma data_recalculateShapes [simp]: "data (fst (recalculateShapes g lib s)) = data s"
  by (simp add: recalculateShapes_def Let_def)

lemma history_saveChanges [simp]: "history (saveChanges g s) = history s"
  by (simp add: saveChanges_def)

lemma shapes_saveChanges [simp]: "shapes (saveChanges g s) = shapes s"
  by (simp add: saveChanges_def)

lemma history_pushHistory:
  "history (pushHistory e s) = drop (Suc (length (history s)) - maxHistoryItems) (history s @ [e])"
  by (simp add: pushHistory_def shiftHistory_eq)

lemma commitChanges_history:
  "history (fst (commitChanges g lib hist s)) =
     (if hist = [] then history s else history (pushHistory hist s))"
proof (cases "recalculateShapes g lib (saveChanges g (pushHistory hist s))")
  case (Pair s' r)
  then have "history s' = history (pushHistory hist s)"
    using history_recalculateShapes [of g lib "saveChanges g (pushHistory hist s)"] by simp
  with Pair show ?thesis by (simp add: commitChanges_def split: option.splits)
qed

lemma commitChanges_True: "commitChanges g lib hist s = (s', Inr True) \<Longrightarrow> hist \<noteq> []"
  by (auto simp: commitChanges_def)

text \<open>A call that returns \<open>true\<close> has pushed exactly one entry, unless it is a \<open>clear\<close>.\<close>
lemma applyOperation_pushes:
  assumes "applyOperation g lib operation s = (s', Inr True)"
  shows "if recordsHistory operation then \<exists>e. history s' = history (pushHistory e s)
         else history s' = history s"
proof (cases operation)
  case (Paint cells tid h e overwrite)
  with assms obtain d hist anyAdded where
    c: "commitChanges g lib hist (s\<lparr>data := (if anyAdded then sortData d else d)\<rparr>) = (s', Inr True)"
    by (auto simp: paintCells_def split: option.splits if_splits prod.splits)
  from commitChanges_True [OF c]
    commitChanges_history [of g lib hist "s\<lparr>data := (if anyAdded then sortData d else d)\<rparr>"] c
  show ?thesis using Paint by (auto simp: pushHistory_def)
next
  case (Erase cells)
  with assms obtain d hist where
    c: "commitChanges g lib hist (s\<lparr>data := d\<rparr>) = (s', Inr True)"
    by (auto simp: eraseCells_def split: prod.splits)
  from commitChanges_True [OF c] commitChanges_history [of g lib hist "s\<lparr>data := d\<rparr>"] c
  show ?thesis using Erase by (auto simp: pushHistory_def)
next
  case Clear
  with assms show ?thesis by (auto simp: clear_def saveChanges_def split: if_splits)
qed

text \<open>Any call, whatever it returns, leaves the history as it was or pushes one entry.\<close>
lemma applyOperation_history:
  "history (fst (applyOperation g lib operation s)) = history s \<or>
   (\<exists>e. history (fst (applyOperation g lib operation s)) = history (pushHistory e s))"
proof (cases operation)
  case (Paint cells tid h e overwrite)
  show ?thesis
  proof (cases "paintLoop cells tid h e overwrite (data s) [] False")
    case (fields d hist anyAdded)
    then show ?thesis
      using Paint commitChanges_history [of g lib hist "s\<lparr>data := (if anyAdded then sortData d else d)\<rparr>"]
      by (auto simp: paintCells_def pushHistory_def split: option.splits)
  qed
next
  case (Erase cells)
  show ?thesis
  proof (cases "eraseLoop cells (data s) []")
    case (Pair d hist)
    then show ?thesis
      using Erase commitChanges_history [of g lib hist "s\<lparr>data := d\<rparr>"]
      by (auto simp: eraseCells_def pushHistory_def)
  qed
next
  case Clear
  then show ?thesis by (simp add: clear_def saveChanges_def split: prod.splits)
qed

text \<open>After calls that each change the map the history has one entry for every call that records, up to the bound.\<close>
lemma mutations_history_length:
  "mutations g lib ops s = Some s' \<Longrightarrow> length (history s) \<le> maxHistoryItems \<Longrightarrow>
   length (history s') =
     min maxHistoryItems (length (history s) + length (filter recordsHistory ops))"
proof (induction ops arbitrary: s)
  case Nil
  then show ?case by simp
next
  case (Cons operation ops)
  from Cons.prems(1) obtain s1 where
    step: "applyOperation g lib operation s = (s1, Inr True)" and
    rest: "mutations g lib ops s1 = Some s'"
    by (auto split: prod.splits sum.splits bool.splits if_splits)
  show ?case
  proof (cases "recordsHistory operation")
    case True
    with applyOperation_pushes [OF step] obtain e where
      "history s1 = history (pushHistory e s)" by auto
    then have len1: "length (history s1) = min maxHistoryItems (Suc (length (history s)))"
      using Cons.prems(2) by (auto simp: history_pushHistory)
    then have "length (history s1) \<le> maxHistoryItems" by simp
    from Cons.IH [OF rest this] len1 True show ?thesis by auto
  next
    case False
    with applyOperation_pushes [OF step] have same: "history s1 = history s" by simp
    with Cons.prems(2) have "length (history s1) \<le> maxHistoryItems" by simp
    from Cons.IH [OF rest this] same False show ?thesis by simp
  qed
qed

lemma history_undo: "history (fst (undo g s)) = butlast (history s)"
  by (auto simp: undo_def split: prod.splits)

lemma history_clear: "history (fst (clear g s)) = history s"
  by (simp add: clear_def)

lemma data_clear: "data (fst (clear g s)) = []"
  by (simp add: clear_def saveChanges_def)

text \<open>Every cell that the loop of \<open>undo\<close> leaves was there before or comes from an element of the entry.\<close>
lemma undoLoop_cells:
  "undoLoop rs d anyAdded = (d', anyAdded') \<Longrightarrow> c \<in> set d' \<Longrightarrow>
   c \<in> set d \<or> (\<exists>r \<in> set rs. restores r c)"
proof (induction rs arbitrary: d anyAdded)
  case Nil
  then show ?case by simp
next
  case (Cons r rs)
  show ?case
  proof (cases "rev_terrainTypeId r")
    case None
    show ?thesis
    proof (cases "findIndex (\<lambda>c. position c = rev_position r) d")
      case None
      with \<open>rev_terrainTypeId r = None\<close> Cons.prems
      have "undoLoop rs d anyAdded = (d', anyAdded')" by simp
      from Cons.IH [OF this Cons.prems(2)] show ?thesis by auto
    next
      case (Some i)
      with \<open>rev_terrainTypeId r = None\<close> Cons.prems
      have "undoLoop rs (splice1 i d) anyAdded = (d', anyAdded')" by simp
      from Cons.IH [OF this Cons.prems(2)] set_splice1 [of i d] show ?thesis by auto
    qed
  next
    case (Some tid)
    show ?thesis
    proof (cases "findIndex (\<lambda>c. position c = rev_position r) d")
      case None
      let ?new = "\<lparr>position = rev_position r, terrainTypeId = tid, height = rev_height r,
                    elevation = rev_elevation r\<rparr>"
      from None Some Cons.prems have "undoLoop rs (d @ [?new]) True = (d', anyAdded')" by simp
      from Cons.IH [OF this Cons.prems(2)]
      have "c \<in> set d \<or> c = ?new \<or> (\<exists>r \<in> set rs. restores r c)" by auto
      moreover have "restores r ?new" using Some by (simp add: restores_def)
      ultimately show ?thesis by auto
    next
      case (Some i)
      let ?upd = "(d ! i)\<lparr>terrainTypeId := tid, height := rev_height r, elevation := rev_elevation r\<rparr>"
      from Some \<open>rev_terrainTypeId r = Some tid\<close> Cons.prems
      have "undoLoop rs (d[i := ?upd]) anyAdded = (d', anyAdded')" by simp
      from Cons.IH [OF this Cons.prems(2)]
      have "c \<in> set (d[i := ?upd]) \<or> (\<exists>r \<in> set rs. restores r c)" .
      moreover have "set (d[i := ?upd]) \<subseteq> insert ?upd (set d)" by (rule set_update_subset_insert)
      moreover have "restores r ?upd"
        using findIndex_Some [OF Some] \<open>rev_terrainTypeId r = Some tid\<close> by (simp add: restores_def)
      ultimately show ?thesis by auto
    qed
  qed
qed

lemma undo_cells:
  assumes "history s \<noteq> []" and "c \<in> set (data (fst (undo g s)))"
  shows "c \<in> set (data s) \<or> (\<exists>r \<in> set (last (history s)). restores r c)"
proof -
  obtain d anyAdded where u: "undoLoop (last (history s)) (data s) False = (d, anyAdded)"
    by (cases "undoLoop (last (history s)) (data s) False")
  with assms have "c \<in> set d"
    by (auto simp: undo_def saveChanges_def sortData_def split: if_splits)
  from undoLoop_cells [OF u this] show ?thesis .
qed

lemma fifteenPaints_change: "mutations squareGame squareGeometry fifteenPaints (mapOf []) \<noteq> None"
  by code_simp

subsection \<open>Validation in \<open>paintCells\<close>\<close>

text \<open>
  C4. When the terrain type uses height and the requested height is at most 0 or the
  requested elevation is below 0, \<open>paintCells\<close> throws, and the map it leaves is the map
  it found: the cells, the history and the shapes are unchanged, for every list of cells.
\<close>
theorem paintCells_validation_error:
  assumes "getTerrainType g tid = Some tt" and "tt_usesHeight tt" and "h \<le> 0 \<or> e < 0"
  shows "paintCells g lib cells tid h e overwrite s =
           (s, Inl (if h \<le> 0 then InvalidHeight else InvalidElevation))"
  using assms by (auto simp: paintCells_def)

theorem paintCells_validation_error_witness:
  "getTerrainType squareGame ''rock'' = Some \<lparr>tt_id = ''rock'', tt_usesHeight = True\<rparr>
   \<and> paintCells squareGame squareGeometry [(0, 0), (0, 1)] ''rock'' 1 (- 1) True (paintedOnce 1 0)
       = (paintedOnce 1 0, Inl InvalidElevation)"
proof -
  have tt: "getTerrainType squareGame ''rock'' = Some \<lparr>tt_id = ''rock'', tt_usesHeight = True\<rparr>"
    by (simp add: squareGame_def rockAndWater_def)
  from paintCells_validation_error [OF tt, of 1 "- 1" squareGeometry "[(0, 0), (0, 1)]" True "paintedOnce 1 0"]
  show ?thesis using tt by simp
qed

subsection \<open>The bound on the history\<close>

text \<open>
  C7. After every push the history holds at most 10 entries, and the push drops the oldest
  entries first: what is left is the end of the old history followed by the new entry. A
  call of \<open>paintCells\<close>, \<open>eraseCells\<close>, \<open>clear\<close> or \<open>undo\<close> keeps the bound.
  Starting from an empty history, calls that each change the map leave one entry for every
  call of \<open>paintCells\<close> or \<open>eraseCells\<close> among them, up to 10, and none for a call of
  \<open>clear\<close>: after 15 changing calls of \<open>paintCells\<close> and \<open>eraseCells\<close> the history
  holds exactly 10. With an empty history \<open>undo\<close> returns \<open>false\<close> and leaves the map as
  it is.
\<close>
theorem history_bounded:
  "length (history (pushHistory e s)) \<le> 10
   \<and> history (pushHistory e s) = drop (Suc (length (history s)) - 10) (history s @ [e])
   \<and> (length (history s) \<le> 10 \<longrightarrow>
        length (history (fst (applyOperation g lib operation s))) \<le> 10
        \<and> length (history (fst (undo g s))) \<le> 10
        \<and> length (history (fst (clear g s))) \<le> 10)
   \<and> (history s = [] \<longrightarrow> mutations g lib ops s = Some s' \<longrightarrow>
        length (history s') = min 10 (length (filter recordsHistory ops)))
   \<and> (history s = [] \<longrightarrow> undo g s = (s, False))"
proof -
  have push: "length (history (pushHistory e s)) \<le> 10" for e
    by (simp add: history_pushHistory maxHistoryItems_def)
  have oldest: "history (pushHistory e s) = drop (Suc (length (history s)) - 10) (history s @ [e])"
    by (simp add: history_pushHistory maxHistoryItems_def)
  have op: "length (history (fst (applyOperation g lib operation s))) \<le> 10"
    if "length (history s) \<le> 10"
    using applyOperation_history [of g lib operation s] that push by auto
  have un: "length (history (fst (undo g s))) \<le> 10" if "length (history s) \<le> 10"
    using that by (simp add: history_undo)
  have cl: "length (history (fst (clear g s))) \<le> 10" if "length (history s) \<le> 10"
    using that by (simp add: history_clear)
  have many: "length (history s') = min 10 (length (filter recordsHistory ops))"
    if "history s = []" and "mutations g lib ops s = Some s'"
    using mutations_history_length [OF that(2)] that(1) by (simp add: maxHistoryItems_def)
  have empty: "undo g s = (s, False)" if "history s = []"
    using that by (simp add: undo_def)
  from push oldest op un cl many empty show ?thesis by blast
qed

theorem history_bounded_witness:
  "\<exists>s'. history (mapOf []) = []
      \<and> mutations squareGame squareGeometry fifteenPaints (mapOf []) = Some s'
      \<and> length fifteenPaints = 15 \<and> length (filter recordsHistory fifteenPaints) = 15
      \<and> length (history s') = 10
      \<and> undo squareGame (mapOf []) = (mapOf [], False)"
proof -
  obtain s' where m: "mutations squareGame squareGeometry fifteenPaints (mapOf []) = Some s'"
    using fifteenPaints_change by auto
  have h: "history (mapOf []) = []" by (simp add: mapOf_def)
  have l: "length fifteenPaints = 15" by (simp add: fifteenPaints_def)
  have r: "length (filter recordsHistory fifteenPaints) = 15" by code_simp
  from history_bounded [of "[]" "mapOf []" squareGame squareGeometry "Erase []" fifteenPaints s'] h m l r
  show ?thesis by simp
qed

text \<open>
  Fifteen calls that each change the map, \<open>paintCells\<close> and \<open>clear\<close> in turn from the
  empty map, leave a history of eight entries.
\<close>
theorem fifteen_changes_eight_entries:
  "history (mapOf []) = [] \<and> length paintAndClear = 15
   \<and> mutations squareGame squareGeometry paintAndClear (mapOf []) = Some afterPaintAndClear
   \<and> length (history afterPaintAndClear) = 8"
  by code_simp

subsection \<open>\<open>clear\<close> and the history\<close>

text \<open>
  The loop of \<open>undo\<close>, run on cells of distinct positions, leaves cells of distinct
  positions: at a position that the entry is about, the assignment of the last element
  about it if that element records one and no cell if it records none; elsewhere the cells
  that were there.
\<close>
lemma findIndex_None: "findIndex P xs = None \<longleftrightarrow> (\<forall>x \<in> set xs. \<not> P x)"
  by (induction xs) auto

lemma find_append_first:
  "find P (xs @ ys) = (case find P xs of Some x \<Rightarrow> Some x | None \<Rightarrow> find P ys)"
  by (induction xs) auto

lemma lastRevert_Cons:
  "lastRevert (r # rs) pos =
     (case lastRevert rs pos of Some x \<Rightarrow> Some x
      | None \<Rightarrow> if rev_position r = pos then Some r else None)"
  by (simp add: lastRevert_def find_append_first split: option.splits)

lemma distinct_splice1: "distinct xs \<Longrightarrow> distinct (splice1 i xs)"
  using set_take_disj_set_drop_if_distinct [of xs i "Suc i"] by (simp add: splice1_def)

lemma set_splice1_distinct:
  assumes "distinct xs" "i < length xs"
  shows "set (splice1 i xs) = set xs - {xs ! i}"
proof -
  have eq: "xs = take i xs @ xs ! i # drop (Suc i) xs" using assms(2) by (rule id_take_nth_drop)
  with assms(1) have "distinct (take i xs @ xs ! i # drop (Suc i) xs)" by simp
  then have "xs ! i \<notin> set (take i xs)" "xs ! i \<notin> set (drop (Suc i) xs)" by auto
  moreover have "set xs = set (take i xs) \<union> {xs ! i} \<union> set (drop (Suc i) xs)"
  proof -
    have "set xs = set (take i xs @ xs ! i # drop (Suc i) xs)" using eq by simp
    then show ?thesis by auto
  qed
  ultimately show ?thesis by (auto simp: splice1_def)
qed

lemma map_splice1: "map f (splice1 i xs) = splice1 i (map f xs)"
  by (simp add: splice1_def take_map drop_map)

lemma distinct_positions_unique:
  "distinct (map position d) \<Longrightarrow> c \<in> set d \<Longrightarrow> c' \<in> set d \<Longrightarrow> position c = position c' \<Longrightarrow> c = c'"
  by (meson distinct_map inj_onD)

lemma restores_cell:
  "restores r c \<longleftrightarrow>
     (\<exists>tid. rev_terrainTypeId r = Some tid \<and>
        c = \<lparr>position = rev_position r, terrainTypeId = tid, height = rev_height r, elevation = rev_elevation r\<rparr>)"
  by (cases c) (auto simp: restores_def)

lemma undoLoop_exact:
  "distinct (map position d) \<Longrightarrow> undoLoop rs d a = (d', a') \<Longrightarrow>
   distinct (map position d') \<and>
   (\<forall>c. c \<in> set d' \<longleftrightarrow>
      (case lastRevert rs (position c) of Some r \<Rightarrow> restores r c | None \<Rightarrow> c \<in> set d))"
proof (induction rs arbitrary: d a)
  case Nil
  then show ?case by (simp add: lastRevert_def)
next
  case (Cons r rs)
  have dd: "distinct d" using Cons.prems(1) by (simp add: distinct_map)
  have "\<exists>d1 a1. undoLoop rs d1 a1 = (d', a') \<and> distinct (map position d1) \<and>
      (\<forall>c. c \<in> set d1 \<longleftrightarrow> (if rev_position r = position c then restores r c else c \<in> set d))"
  proof (cases "findIndex (\<lambda>c. position c = rev_position r) d")
    case None
    then have absent: "\<forall>x \<in> set d. position x \<noteq> rev_position r" by (simp add: findIndex_None)
    show ?thesis
    proof (cases "rev_terrainTypeId r")
      case None
      with \<open>findIndex _ d = None\<close> Cons.prems(2) have "undoLoop rs d a = (d', a')" by simp
      moreover have "\<forall>c. c \<in> set d \<longleftrightarrow> (if rev_position r = position c then restores r c else c \<in> set d)"
        using absent None by (auto simp: restores_def)
      ultimately show ?thesis using Cons.prems(1) by blast
    next
      case (Some tid)
      let ?new = "\<lparr>position = rev_position r, terrainTypeId = tid, height = rev_height r,
                    elevation = rev_elevation r\<rparr>"
      from Some \<open>findIndex _ d = None\<close> Cons.prems(2) have "undoLoop rs (d @ [?new]) True = (d', a')" by simp
      moreover have "distinct (map position (d @ [?new]))" using Cons.prems(1) absent by auto
      moreover have "\<forall>c. c \<in> set (d @ [?new]) \<longleftrightarrow> (if rev_position r = position c then restores r c else c \<in> set d)"
        using absent Some by (auto simp: restores_cell)
      ultimately show ?thesis by blast
    qed
  next
    case (Some i)
    from findIndex_Some [OF Some] have i: "i < length d" and pi: "position (d ! i) = rev_position r" by simp_all
    have only: "c = d ! i" if "c \<in> set d" "position c = rev_position r" for c
      using distinct_positions_unique [OF Cons.prems(1) that(1) nth_mem [OF i]] that(2) pi by simp
    show ?thesis
    proof (cases "rev_terrainTypeId r")
      case None
      with Some Cons.prems(2) have "undoLoop rs (splice1 i d) a = (d', a')" by simp
      moreover have "distinct (map position (splice1 i d))"
        using Cons.prems(1) by (simp add: map_splice1 distinct_splice1)
      moreover have "\<forall>c. c \<in> set (splice1 i d) \<longleftrightarrow> (if rev_position r = position c then restores r c else c \<in> set d)"
      proof
        fix c
        have s: "set (splice1 i d) = set d - {d ! i}" using dd i by (rule set_splice1_distinct)
        show "c \<in> set (splice1 i d) \<longleftrightarrow> (if rev_position r = position c then restores r c else c \<in> set d)"
        proof (cases "rev_position r = position c")
          case True
          then have "c \<in> set d - {d ! i} \<Longrightarrow> False" using only by auto
          moreover have "\<not> restores r c" using None by (simp add: restores_def)
          ultimately show ?thesis using True s by auto
        next
          case False
          then have "c \<noteq> d ! i" using pi by auto
          with False s show ?thesis by auto
        qed
      qed
      ultimately show ?thesis by blast
    next
      case (Some tid)
      let ?upd = "(d ! i)\<lparr>terrainTypeId := tid, height := rev_height r, elevation := rev_elevation r\<rparr>"
      have upd: "?upd = \<lparr>position = rev_position r, terrainTypeId = tid, height = rev_height r,
                    elevation = rev_elevation r\<rparr>"
        using pi by (cases "d ! i") simp
      from Some \<open>findIndex _ d = Some i\<close> Cons.prems(2) have "undoLoop rs (d[i := ?upd]) a = (d', a')" by simp
      moreover have "map position (d[i := ?upd]) = map position d"
        using i by (simp add: map_update list_update_same_conv)
      then have "distinct (map position (d[i := ?upd]))" using Cons.prems(1) by simp
      moreover have "\<forall>c. c \<in> set (d[i := ?upd]) \<longleftrightarrow> (if rev_position r = position c then restores r c else c \<in> set d)"
      proof
        fix c
        have s: "set (d[i := ?upd]) = insert ?upd (set d - {d ! i})" using dd i by (rule set_update_distinct)
        show "c \<in> set (d[i := ?upd]) \<longleftrightarrow> (if rev_position r = position c then restores r c else c \<in> set d)"
        proof (cases "rev_position r = position c")
          case True
          then have "c \<in> set d - {d ! i} \<Longrightarrow> False" using only by auto
          moreover have "restores r c \<longleftrightarrow> c = ?upd" using Some by (auto simp: restores_cell upd)
          ultimately show ?thesis using True s by auto
        next
          case False
          then have "c \<noteq> ?upd" "c \<noteq> d ! i" using pi by (auto simp: upd)
          with False s show ?thesis by auto
        qed
      qed
      ultimately show ?thesis by blast
    qed
  qed
  then obtain d1 a1 where rec: "undoLoop rs d1 a1 = (d', a')" and d1: "distinct (map position d1)"
    and m: "\<forall>c. c \<in> set d1 \<longleftrightarrow> (if rev_position r = position c then restores r c else c \<in> set d)"
    by blast
  from Cons.IH [OF d1 rec] have dist: "distinct (map position d')"
    and ih: "\<forall>c. c \<in> set d' \<longleftrightarrow>
      (case lastRevert rs (position c) of Some r \<Rightarrow> restores r c | None \<Rightarrow> c \<in> set d1)"
    by simp_all
  have "c \<in> set d' \<longleftrightarrow>
      (case lastRevert (r # rs) (position c) of Some r \<Rightarrow> restores r c | None \<Rightarrow> c \<in> set d)" for c
    using ih [rule_format, of c] m [rule_format, of c]
    by (simp add: lastRevert_Cons split: option.splits)
  with dist show ?case by blast
qed

lemma undoLoop_anyAdded:
  "undoLoop rs d a = (d', a') \<Longrightarrow> (a \<longrightarrow> a') \<and> (\<not> a' \<longrightarrow> length d' \<le> length d)"
proof (induction rs arbitrary: d a)
  case Nil
  then show ?case by auto
next
  case (Cons r rs)
  show ?case
  proof (cases "rev_terrainTypeId r"; cases "findIndex (\<lambda>c. position c = rev_position r) d")
    fix tid assume "rev_terrainTypeId r = Some tid" "findIndex (\<lambda>c. position c = rev_position r) d = None"
    with Cons.prems have "undoLoop rs (d @ [\<lparr>position = rev_position r, terrainTypeId = tid, height = rev_height r,
                    elevation = rev_elevation r\<rparr>]) True = (d', a')" by simp
    from Cons.IH [OF this] show ?thesis by simp
  next
    fix tid i assume "rev_terrainTypeId r = Some tid" "findIndex (\<lambda>c. position c = rev_position r) d = Some i"
    with Cons.prems have "undoLoop rs (d[i := (d ! i)\<lparr>terrainTypeId := tid, height := rev_height r, elevation := rev_elevation r\<rparr>]) a = (d', a')" by simp
    from Cons.IH [OF this] show ?thesis by simp
  next
    assume "rev_terrainTypeId r = None" "findIndex (\<lambda>c. position c = rev_position r) d = None"
    with Cons.prems have "undoLoop rs d a = (d', a')" by simp
    from Cons.IH [OF this] show ?thesis by simp
  next
    fix i assume "rev_terrainTypeId r = None" "findIndex (\<lambda>c. position c = rev_position r) d = Some i"
    with Cons.prems have "undoLoop rs (splice1 i d) a = (d', a')" by simp
    from Cons.IH [OF this] show ?thesis by (auto simp: splice1_def)
  qed
qed

text \<open>The cells that \<open>undo\<close> leaves after a \<open>clear\<close>.\<close>
lemma undo_after_clear_data:
  assumes "history s \<noteq> []"
  shows "sorted (map position (data (fst (undo g (fst (clear g s))))))
    \<and> distinct (map position (data (fst (undo g (fst (clear g s))))))
    \<and> (\<forall>c. c \<in> set (data (fst (undo g (fst (clear g s))))) \<longleftrightarrow>
          terrainTypeId c \<in> set (map tt_id (getTerrainTypes g))
          \<and> (\<exists>r. lastRevert (last (history s)) (position c) = Some r \<and> restores r c))"
proof -
  let ?s = "fst (clear g s)"
  have h: "history ?s = history s" by (rule history_clear)
  have d0: "data ?s = []" by (rule data_clear)
  obtain d a where u: "undoLoop (last (history s)) [] False = (d, a)"
    by (cases "undoLoop (last (history s)) [] False")
  from undoLoop_exact [OF _ u] have dist: "distinct (map position d)"
    and mem: "\<forall>c. c \<in> set d \<longleftrightarrow>
      (case lastRevert (last (history s)) (position c) of Some r \<Rightarrow> restores r c | None \<Rightarrow> False)"
    by (simp_all split: option.splits)
  from undoLoop_anyAdded [OF u] have "\<not> a \<Longrightarrow> d = []" by simp
  then have srt: "(if a then sortData d else d) = sortData d" by (auto simp: sortData_def)
  have D: "data (fst (undo g ?s)) =
      filter (\<lambda>x. terrainTypeId x \<in> set (map tt_id (getTerrainTypes g))) (sortData d)"
    using assms h d0 u srt by (simp add: undo_def saveChanges_def)
  have "sorted (map position (sortData d))" by (simp add: sortData_def)
  then have 1: "sorted (map position (data (fst (undo g ?s))))" unfolding D by (rule sorted_filter)
  have "distinct (map position (sortData d))" using dist by (simp add: sortData_def distinct_map_sort_key)
  then have 2: "distinct (map position (data (fst (undo g ?s))))" unfolding D by (rule distinct_map_filter)
  have 3: "c \<in> set (data (fst (undo g ?s))) \<longleftrightarrow>
          terrainTypeId c \<in> set (map tt_id (getTerrainTypes g))
          \<and> (\<exists>r. lastRevert (last (history s)) (position c) = Some r \<and> restores r c)" for c
    unfolding D using mem [rule_format, of c] by (auto simp: sortData_def split: option.splits)
  from 1 2 3 show ?thesis by blast
qed

text \<open>
  C9. \<open>clear\<close> leaves the history as it is. An \<open>undo\<close> after it returns \<open>false\<close> and
  changes nothing when the history is empty. Otherwise it returns \<open>true\<close> and pops the
  last entry, the one of the latest change before the \<open>clear\<close>, and the map it leaves is
  that entry undone on the empty map: its cells are sorted, one to a position, and they are
  exactly the prior assignments that the entry records (for a position the last element
  about it counts) whose terrain type is in the catalogue. So a position that the entry
  records as painted before gets that assignment back, and every other cleared cell stays
  away.
\<close>
theorem clear_keeps_history:
  "history (fst (clear g s)) = history s
   \<and> (history s = [] \<longrightarrow> undo g (fst (clear g s)) = (fst (clear g s), False))
   \<and> (history s \<noteq> [] \<longrightarrow>
        snd (undo g (fst (clear g s))) = True
        \<and> history (fst (undo g (fst (clear g s)))) = butlast (history s)
        \<and> sorted (map position (data (fst (undo g (fst (clear g s))))))
        \<and> distinct (map position (data (fst (undo g (fst (clear g s))))))
        \<and> (\<forall>c. c \<in> set (data (fst (undo g (fst (clear g s))))) \<longleftrightarrow>
              terrainTypeId c \<in> set (map tt_id (getTerrainTypes g))
              \<and> (\<exists>r. lastRevert (last (history s)) (position c) = Some r \<and> restores r c)))"
proof -
  have h: "history (fst (clear g s)) = history s" by (rule history_clear)
  have "undo g (fst (clear g s)) = (fst (clear g s), False)" if "history s = []"
    using h that by (simp add: undo_def)
  moreover have "snd (undo g (fst (clear g s))) = True" if "history s \<noteq> []"
    using h that by (auto simp: undo_def split: prod.splits)
  moreover have "history (fst (undo g (fst (clear g s)))) = butlast (history s)"
    using h by (simp add: history_undo)
  ultimately show ?thesis using h undo_after_clear_data [of s g] by blast
qed

text \<open>
  The cell \<open>(0, 0)\<close> painted with height 1, repainted with height 2, the map cleared:
  \<open>undo\<close> pops the entry of the repaint and puts the cell of height 1 on the empty map.
\<close>
theorem clear_keeps_history_witness:
  "history paintedTwice \<noteq> []
   \<and> data paintedTwice = [cellAt (0, 0) ''rock'' 2 0]
   \<and> lastRevert (last (history paintedTwice)) (0, 0)
       = Some \<lparr>rev_position = (0, 0), rev_terrainTypeId = Some ''rock'', rev_height = Some 1,
                rev_elevation = Some 0\<rparr>
   \<and> history (fst (clear squareGame paintedTwice)) = history paintedTwice
   \<and> cellAt (0, 0) ''rock'' 1 0 \<in> set (data (fst (undo squareGame (fst (clear squareGame paintedTwice)))))
   \<and> undo squareGame (fst (clear squareGame paintedTwice))
       = (\<lparr>data = [cellAt (0, 0) ''rock'' 1 0], history = butlast (history paintedTwice), shapes = []\<rparr>,
          True)
   \<and> undo squareGame (fst (clear squareGame (mapOf [cellAt (0, 0) ''rock'' 1 0])))
       = (mapOf [], False)"
proof -
  let ?r = "\<lparr>rev_position = (0, 0), rev_terrainTypeId = Some ''rock'', rev_height = Some 1,
            rev_elevation = Some 0\<rparr>"
  have n: "history paintedTwice \<noteq> []" by code_simp
  have d: "data paintedTwice = [cellAt (0, 0) ''rock'' 2 0]" by code_simp
  have l: "lastRevert (last (history paintedTwice)) (position (cellAt (0, 0) ''rock'' 1 0)) = Some ?r"
    by code_simp
  have r: "restores ?r (cellAt (0, 0) ''rock'' 1 0)" by (simp add: restores_def cellAt_def)
  have k: "terrainTypeId (cellAt (0, 0) ''rock'' 1 0) \<in> set (map tt_id (getTerrainTypes squareGame))"
    by (simp add: cellAt_def squareGame_def rockAndWater_def)
  have u: "undo squareGame (fst (clear squareGame paintedTwice))
       = (\<lparr>data = [cellAt (0, 0) ''rock'' 1 0], history = butlast (history paintedTwice), shapes = []\<rparr>,
          True)"
    by code_simp
  have e: "history (mapOf [cellAt (0, 0) ''rock'' 1 0]) = []" by (simp add: mapOf_def)
  have c: "fst (clear squareGame (mapOf [cellAt (0, 0) ''rock'' 1 0])) = mapOf []"
    by code_simp
  from clear_keeps_history [of squareGame paintedTwice] n l r k
  have m: "cellAt (0, 0) ''rock'' 1 0 \<in> set (data (fst (undo squareGame (fst (clear squareGame paintedTwice)))))"
    and h: "history (fst (clear squareGame paintedTwice)) = history paintedTwice"
    by blast+
  from clear_keeps_history [of squareGame "mapOf [cellAt (0, 0) ''rock'' 1 0]"] e c
  have "undo squareGame (fst (clear squareGame (mapOf [cellAt (0, 0) ''rock'' 1 0]))) = (mapOf [], False)"
    by simp
  with n d l m h u show ?thesis by (simp add: cellAt_def)
qed

subsection \<open>The first return of \<open>fillCells\<close>\<close>

text \<open>
  C10. When the start cell is painted with the requested terrain type and the requested
  height, \<open>fillCells\<close> returns at once and the map stays as it is (no cell changes, the
  history and the shapes are those it found), whatever elevation is requested.
\<close>
theorem fillCells_same_type_and_height:
  assumes "get s startCell = Some c" and "terrainTypeId c = tid" and "height c = Some h"
  shows "fillCells g lib startCell tid h e s = Some (s, Inr (Array []))"
  using assms by (simp add: fillCells_def cellConfig_def)

theorem fillCells_same_type_and_height_witness:
  "get (paintedOnce 1 0) (0, 0) = Some (cellAt (0, 0) ''rock'' 1 0)
   \<and> elevation (cellAt (0, 0) ''rock'' 1 0) \<noteq> Some 5
   \<and> fillCells squareGame squareGeometry (0, 0) ''rock'' 1 5 (paintedOnce 1 0)
       = Some (paintedOnce 1 0, Inr (Array []))"
proof -
  have g: "get (paintedOnce 1 0) (0, 0) = Some (cellAt (0, 0) ''rock'' 1 0)" by code_simp
  from fillCells_same_type_and_height [OF g, of "''rock''" 1 squareGame squareGeometry 5]
  show ?thesis using g by (simp add: cellAt_def)
qed

subsection \<open>What \<open>fillCells\<close> returns\<close>

text \<open>
  C8. The methods that change the map are documented to return \<open>true\<close> if the map was
  updated and \<open>false\<close> otherwise. The first \<open>return\<close> of \<open>fillCells\<close> returns an empty
  array instead: a fill of a cell with the terrain type and height it already has.
\<close>
theorem fillCells_returns_array:
  "fillCells squareGame squareGeometry (0, 0) ''rock'' 1 0 (paintedOnce 1 0)
     = Some (paintedOnce 1 0, Inr (Array []))"
  by code_simp

subsection \<open>\<open>eraseCells\<close> and \<open>undo\<close>\<close>

text \<open>
  C2. The history entry of \<open>eraseCells\<close> records the terrain type and the height of an
  erased cell and not its elevation. After a cell of elevation 2 is erased, \<open>undo\<close> puts
  back a cell of the prior terrain type and height whose elevation is \<open>undefined\<close>.
\<close>
theorem eraseCells_undo_loses_elevation:
  "data (paintedOnce 1 2) = [cellAt (0, 0) ''rock'' 1 2]
   \<and> data (fst (undo squareGame (fst (eraseCells squareGame squareGeometry [(0, 0)] (paintedOnce 1 2)))))
       = [\<lparr>position = (0, 0), terrainTypeId = ''rock'', height = Some 1, elevation = None\<rparr>]"
  by code_simp

section \<open>Properties of the shape building\<close>

subsection \<open>Errors of the recomputation\<close>

lemma nextEdgeIndex_none:
  assumes "\<forall>edge \<in> set allEdges. \<not> pointEquals lib (fst edge) (snd lastEdge)"
  shows "nextEdgeIndex lib allEdges lastEdge = Inl MissingEdge"
proof -
  have "c \<in> set (zip allEdges [0..<length allEdges]) \<Longrightarrow>
        \<not> pointEquals lib (fst (fst c)) (snd lastEdge)" for c
    using assms set_zip_leftD [of "fst c" "snd c" allEdges "[0..<length allEdges]"] by simp
  then have "nextEdgeCandidates lib allEdges lastEdge = []"
    unfolding nextEdgeCandidates_def filter_empty_conv by blast
  then show ?thesis by (simp add: nextEdgeIndex_def)
qed

lemma loopStuck_walkLoop: "loopStuck lib allEdges e0 es \<Longrightarrow> walkLoop lib allEdges e0 es = Inl MissingEdge"
proof (induction rule: loopStuck.induct)
  case (stuck_now e0 es allEdges)
  then show ?case by (simp add: walkLoop.simps [of lib allEdges e0 es] nextEdgeIndex_none)
next
  case (stuck_later e0 es allEdges idx)
  then show ?case by (simp add: walkLoop.simps [of lib allEdges e0 es])
qed

lemma walkStuck_walkAll: "walkStuck lib allEdges \<Longrightarrow> walkAll lib allEdges acc = Inl MissingEdge"
proof (induction arbitrary: acc rule: walkStuck.induct)
  case (this_loop allEdges e0)
  then show ?case by (simp add: loopStuck_walkLoop)
next
  case (later_loop allEdges e0 rest edges)
  then show ?case by simp
qed

lemma containingPolygons_filter:
  "map ((!) solidPolygons) (containingPolygons lib solidPolygons holePolygon) =
     filter (\<lambda>p. containsPolygon lib (shape_polygon p) holePolygon) solidPolygons"
proof -
  let ?P = "\<lambda>p. containsPolygon lib (shape_polygon p) holePolygon"
  have "filter ?P solidPolygons = filter ?P (map ((!) solidPolygons) [0..<length solidPolygons])"
    by (simp add: map_nth)
  also have "\<dots> = map ((!) solidPolygons) (filter (?P \<circ> (!) solidPolygons) [0..<length solidPolygons])"
    by (rule filter_map)
  finally show ?thesis by (simp add: containingPolygons_def comp_def)
qed

lemma intersectsWithEdges_empty:
  assumes "\<forall>i \<in> set cs. \<forall>edge \<in> set (polygonEdges lib (shape_polygon (solidPolygons ! i))).
             \<forall>x. intersectsYAt lib edge (snd testPoint) = Some x \<longrightarrow> \<not> x < fst testPoint"
  shows "intersectsWithEdges lib solidPolygons cs testPoint = []"
  using assms
  by (auto simp: intersectsWithEdges_def crossesLeftOf_def filter_empty_conv split: option.splits)

lemma noParent_assignHole:
  assumes "noParent g lib solidPolygons holePolygon"
  shows "assignHole g lib solidPolygons holePolygon = Inl NoParentPolygon"
proof -
  let ?cs = "containingPolygons lib solidPolygons holePolygon"
  let ?parents = "filter (\<lambda>p. containsPolygon lib (shape_polygon p) holePolygon) solidPolygons"
  have m: "map ((!) solidPolygons) ?cs = ?parents" by (rule containingPolygons_filter)
  from assms consider (none) "?parents = []"
    | (several) v where "length ?parents > 1"
        "find (\<lambda>p. snd p = boundingBox_y1 lib holePolygon) holePolygon = Some v"
        "\<forall>p \<in> set ?parents. \<forall>edge \<in> set (polygonEdges lib (shape_polygon p)).
            \<forall>x. intersectsYAt lib edge (snd v + grid_h g * (5 / 100)) = Some x \<longrightarrow> \<not> x < fst v"
    by (auto simp: noParent_def Let_def)
  then show ?thesis
  proof cases
    case none
    with m have "?cs = []" by simp
    then show ?thesis by (simp add: assignHole_def)
  next
    case several
    from several(1) m have "length ?cs > 1" by (metis length_map)
    then obtain i j rest where cs: "?cs = i # j # rest"
      by (cases ?cs; cases "tl ?cs") auto
    have "\<forall>i \<in> set ?cs. solidPolygons ! i \<in> set ?parents"
      using m by (metis image_eqI list.set_map)
    with several(3)
    have "intersectsWithEdges lib solidPolygons ?cs (fst v, snd v + grid_h g * (5 / 100)) = []"
      by (intro intersectsWithEdges_empty) auto
    with cs several(2) show ?thesis by (simp add: assignHole_def Let_def)
  qed
qed

lemma holeOrphaned_assignHoles:
  "holeOrphaned g lib solidPolygons holePolygons \<Longrightarrow>
   assignHoles g lib solidPolygons holePolygons = Inl NoParentPolygon"
proof (induction rule: holeOrphaned.induct)
  case (this_hole solidPolygons holePolygon holePolygons)
  then show ?case by (simp add: noParent_assignHole)
next
  case (later_hole solidPolygons holePolygon solidPolygons' holePolygons)
  then show ?case by simp
qed

lemma combineFault_combinePolygons:
  assumes "combineFault g lib originalPolygons tid h e"
  shows "combinePolygons g lib originalPolygons tid h e = Inl MissingEdge \<or>
         combinePolygons g lib originalPolygons tid h e = Inl NoParentPolygon"
  using assms walkStuck_walkAll holeOrphaned_assignHoles
  by (fastforce simp: combineFault_def combinePolygons_def Let_def)

lemma groupFault_recalculateGroups:
  "groupFault g lib groups \<Longrightarrow>
   \<exists>shs err. recalculateGroups g lib groups acc = (shs, Some err)
     \<and> (err = MissingEdge \<or> err = NoParentPolygon)"
proof (induction arbitrary: acc rule: groupFault.induct)
  case (this_group c cells k groups)
  from combineFault_combinePolygons [OF this_group] show ?case by auto
next
  case (later_group c cells shs groups k)
  from later_group.IH [of "acc @ shs"] later_group.hyps(1) show ?case by simp
qed

lemma recomputeFault_recalculateShapes:
  assumes "recomputeFault g lib s"
  shows "\<exists>shs err. recalculateShapes g lib s = (s\<lparr>shapes := shs\<rparr>, Some err)
           \<and> (err = MissingEdge \<or> err = NoParentPolygon)"
proof -
  from assms have ng: "\<not> gridless g"
    and gf: "groupFault g lib (groupBy (groupKey g) (data s))"
    by (simp_all add: recomputeFault_def)
  from groupFault_recalculateGroups [OF gf, of "[]"] obtain shs err where
    "recalculateGroups g lib (groupBy (groupKey g) (data s)) [] = (shs, Some err)"
    "err = MissingEdge \<or> err = NoParentPolygon" by blast
  with ng show ?thesis by (auto simp: recalculateShapes_def Let_def)
qed

lemma recomputeFault_commitChanges:
  assumes "hist \<noteq> []" and "recomputeFault g lib (saveChanges g (pushHistory hist s))"
  shows "\<exists>s' err. commitChanges g lib hist s = (s', Inl err)
           \<and> (err = MissingEdge \<or> err = NoParentPolygon)"
  using recomputeFault_recalculateShapes [OF assms(2)] assms(1)
  by (auto simp: commitChanges_def)

lemma recomputeFault_data: "data s = data s' \<Longrightarrow> recomputeFault g lib s = recomputeFault g lib s'"
  by (simp add: recomputeFault_def)

text \<open>
  C3. When the recomputation of the shapes meets one of the three conditions (a loop end
  point with no edge starting at it before the loop closes, a hole that no boundary polygon
  contains, a hole with several containing polygons none of whose edges the ray crosses),
  \<open>_recalculateShapes\<close> throws the error of the missing edge or of the missing parent,
  and so do \<open>paintCells\<close> and \<open>eraseCells\<close> when they recompute the shapes after a
  change: no call returns normally with the shapes of such a map.
\<close>
theorem geometry_errors_propagate:
  "(recomputeFault g lib s \<longrightarrow>
      (\<exists>shs err. recalculateShapes g lib s = (s\<lparr>shapes := shs\<rparr>, Some err)
         \<and> (err = MissingEdge \<or> err = NoParentPolygon)))
   \<and> (getTerrainType g tid = Some tt \<longrightarrow> \<not> (tt_usesHeight tt \<and> (h \<le> 0 \<or> e < 0)) \<longrightarrow>
       paintLoop cells tid h e overwrite (data s) [] False = (d, hist, anyAdded) \<longrightarrow> hist \<noteq> [] \<longrightarrow>
       recomputeFault g lib
         (saveChanges g (pushHistory hist (s\<lparr>data := (if anyAdded then sortData d else d)\<rparr>))) \<longrightarrow>
      (\<exists>s' err. paintCells g lib cells tid h e overwrite s = (s', Inl err)
         \<and> (err = MissingEdge \<or> err = NoParentPolygon)))
   \<and> (eraseLoop cells (data s) [] = (d, hist) \<longrightarrow> hist \<noteq> [] \<longrightarrow>
       recomputeFault g lib (saveChanges g (pushHistory hist (s\<lparr>data := d\<rparr>))) \<longrightarrow>
      (\<exists>s' err. eraseCells g lib cells s = (s', Inl err)
         \<and> (err = MissingEdge \<or> err = NoParentPolygon)))"
proof -
  have paint: "\<exists>s' err. paintCells g lib cells tid h e overwrite s = (s', Inl err)
         \<and> (err = MissingEdge \<or> err = NoParentPolygon)"
    if "getTerrainType g tid = Some tt" "\<not> (tt_usesHeight tt \<and> (h \<le> 0 \<or> e < 0))"
       "paintLoop cells tid h e overwrite (data s) [] False = (d, hist, anyAdded)" "hist \<noteq> []"
       "recomputeFault g lib
          (saveChanges g (pushHistory hist (s\<lparr>data := (if anyAdded then sortData d else d)\<rparr>)))"
  proof -
    from that(1,2,3)
    have "paintCells g lib cells tid h e overwrite s =
            commitChanges g lib hist (s\<lparr>data := (if anyAdded then sortData d else d)\<rparr>)"
      by (auto simp: paintCells_def)
    with recomputeFault_commitChanges [OF that(4,5)] show ?thesis by simp
  qed
  have erase: "\<exists>s' err. eraseCells g lib cells s = (s', Inl err)
         \<and> (err = MissingEdge \<or> err = NoParentPolygon)"
    if "eraseLoop cells (data s) [] = (d, hist)" "hist \<noteq> []"
       "recomputeFault g lib (saveChanges g (pushHistory hist (s\<lparr>data := d\<rparr>)))"
  proof -
    from that(1) have "eraseCells g lib cells s = commitChanges g lib hist (s\<lparr>data := d\<rparr>)"
      by (simp add: eraseCells_def)
    with recomputeFault_commitChanges [OF that(2,3)] show ?thesis by simp
  qed
  from recomputeFault_recalculateShapes paint erase show ?thesis by blast
qed

lemma ring_groups:
  "groupBy (groupKey squareGame) ring = [(''rock.1.0'', cellAt (0, 0) ''rock'' 1 0 # tl ring)]"
  by code_simp

lemma ring_loops:
  "walkAll noContainment
     (removeDuplicateEdges noContainment
        (concat (map (polygonEdges noContainment)
           (map (\<lambda>x. getGridCellPolygon noContainment (position x)) (cellAt (0, 0) ''rock'' 1 0 # tl ring))))) []
   = Inr [[(0, 0), (100, 0), (200, 0), (300, 0), (300, 100), (300, 200),
           (300, 300), (200, 300), (100, 300), (0, 300), (0, 200), (0, 100)],
          [(200, 100), (100, 100), (100, 200), (200, 200)]]"
  by code_simp

lemma ring_winding:
  "clockwise noContainment [(0, 0), (100, 0), (200, 0), (300, 0), (300, 100), (300, 200),
           (300, 300), (200, 300), (100, 300), (0, 300), (0, 200), (0, 100)]"
  "\<not> clockwise noContainment [(200, 100), (100, 100), (100, 200), (200, 200)]"
  by code_simp+

lemma ring_fault: "recomputeFault squareGame noContainment (mapOf ring)"
proof -
  have "noParent squareGame noContainment solid hole" for solid hole
    by (simp add: noParent_def noContainment_def)
  then have "holeOrphaned squareGame noContainment solid (hole # holes)" for solid hole holes
    by (rule holeOrphaned.this_hole)
  then have "combineFault squareGame noContainment
      (map (\<lambda>x. getGridCellPolygon noContainment (position x)) (cellAt (0, 0) ''rock'' 1 0 # tl ring))
      ''rock'' (Some 1) (Some 0)"
    unfolding combineFault_def Let_def ring_loops using ring_winding by simp
  then have "combineFault squareGame noContainment
      (map (\<lambda>x. getGridCellPolygon noContainment (position x)) (cellAt (0, 0) ''rock'' 1 0 # tl ring))
      (terrainTypeId (cellAt (0, 0) ''rock'' 1 0)) (height (cellAt (0, 0) ''rock'' 1 0))
      (elevation (cellAt (0, 0) ''rock'' 1 0))"
    by (simp add: cellAt_def)
  then have "groupFault squareGame noContainment
      [(''rock.1.0'', cellAt (0, 0) ''rock'' 1 0 # tl ring)]"
    by (rule groupFault.this_group)
  moreover have "\<not> gridless squareGame" by (simp add: squareGame_def)
  ultimately show ?thesis
    by (simp add: recomputeFault_def ring_groups mapOf_def)
qed

lemma ring_paintLoop:
  "paintLoop (map position ring) ''rock'' 1 0 True (data (mapOf [])) [] False =
     (ring, map (\<lambda>c. \<lparr>rev_position = position c, rev_terrainTypeId = None, rev_height = None,
                      rev_elevation = None\<rparr>) ring, True)"
  by code_simp

lemma ring_saved:
  "data (saveChanges squareGame (pushHistory hist ((mapOf [])\<lparr>data := (if True then sortData ring else ring)\<rparr>)))
     = data (mapOf ring)"
proof -
  have "sortData ring = ring" by code_simp
  moreover have "filter (\<lambda>x. terrainTypeId x \<in> set (map tt_id (getTerrainTypes squareGame))) ring = ring"
    by code_simp
  ultimately show ?thesis by (simp add: saveChanges_def pushHistory_def mapOf_def)
qed

theorem geometry_errors_propagate_witness:
  "recomputeFault squareGame noContainment (mapOf ring)
   \<and> recalculateShapes squareGame noContainment (mapOf ring) = (mapOf ring, Some NoParentPolygon)
   \<and> (\<exists>s'. paintCells squareGame noContainment (map position ring) ''rock'' 1 0 True (mapOf [])
              = (s', Inl NoParentPolygon))"
proof -
  let ?hist = "map (\<lambda>c. \<lparr>rev_position = position c, rev_terrainTypeId = None, rev_height = None,
                      rev_elevation = None\<rparr>) ring"
  have tt: "getTerrainType squareGame ''rock'' = Some \<lparr>tt_id = ''rock'', tt_usesHeight = True\<rparr>"
    by (simp add: squareGame_def rockAndWater_def)
  have ne: "?hist \<noteq> []" by (simp add: ring_def)
  have f2: "recomputeFault squareGame noContainment
      (saveChanges squareGame (pushHistory ?hist ((mapOf [])\<lparr>data := (if True then sortData ring else ring)\<rparr>)))"
    using ring_fault recomputeFault_data [OF ring_saved] by blast
  have r: "recalculateShapes squareGame noContainment (mapOf ring) = (mapOf ring, Some NoParentPolygon)"
    by code_simp
  have p: "snd (paintCells squareGame noContainment (map position ring) ''rock'' 1 0 True (mapOf []))
      = Inl NoParentPolygon"
    by code_simp
  from geometry_errors_propagate [of squareGame noContainment "mapOf ring" "''rock''"
      "\<lparr>tt_id = ''rock'', tt_usesHeight = True\<rparr>" 1 0 "map position ring" True ring ?hist True]
    ring_fault
  have "\<exists>shs err. recalculateShapes squareGame noContainment (mapOf ring) = ((mapOf ring)\<lparr>shapes := shs\<rparr>, Some err)
         \<and> (err = MissingEdge \<or> err = NoParentPolygon)"
    by blast
  moreover
  from geometry_errors_propagate [of squareGame noContainment "mapOf []" "''rock''"
      "\<lparr>tt_id = ''rock'', tt_usesHeight = True\<rparr>" 1 0 "map position ring" True ring ?hist True]
    tt ring_paintLoop ne f2
  have "\<exists>s' err. paintCells squareGame noContainment (map position ring) ''rock'' 1 0 True (mapOf []) = (s', Inl err)
         \<and> (err = MissingEdge \<or> err = NoParentPolygon)"
    by simp
  ultimately show ?thesis using ring_fault r p by (metis snd_conv)
qed

text \<open>
  Cells whose keys print alike fall into one group, as they do in the map of \<open>groupBy\<close>:
  height 1.5 with elevation 25 and height 1 with elevation 5.25 both print \<open>rock.1.5.25\<close>.
\<close>
lemma colliding_keys_one_group:
  "map fst (groupBy (groupKey squareGame)
      [cellAt (0, 0) ''rock'' (3 / 2) 25, cellAt (0, 1) ''rock'' 1 (21 / 4)]) = [''rock.1.5.25'']"
  by code_simp

subsection \<open>The parent of a hole\<close>

lemma sort_key_head:
  assumes "sort_key f xs = a # rest"
  shows "a \<in> set xs \<and> (\<forall>b \<in> set xs. f a \<le> f b)"
proof -
  have "set (sort_key f xs) = set xs" by simp
  with assms have s: "set xs = insert a (set rest)" by simp
  have "sorted (map f (sort_key f xs))" by simp
  with assms have "\<forall>b \<in> set rest. f a \<le> f b" by simp
  with s show ?thesis by auto
qed

lemma intersectsWithEdges_set:
  "z \<in> set (intersectsWithEdges lib solidPolygons cs testPoint) \<longleftrightarrow>
     (\<exists>i \<in> set cs. \<exists>edge \<in> set (polygonEdges lib (shape_polygon (solidPolygons ! i))).
        z = (intersectsYAt lib edge (snd testPoint), i) \<and> crossesLeftOf testPoint (fst z))"
  by (auto simp: intersectsWithEdges_def)

text \<open>A hole that exactly one boundary polygon contains goes to that polygon.\<close>
lemma assignHole_single:
  "containingPolygons lib solidPolygons holePolygon = [i] \<Longrightarrow>
   assignHole g lib solidPolygons holePolygon = Inr (pushHole i holePolygon solidPolygons)"
  by (simp add: assignHole_def)

text \<open>
  With several containing polygons the hole goes to the polygon of the crossing nearest to
  the test point among the crossings on its left that are not at \<open>x = 0\<close>.
\<close>
lemma assignHole_several:
  assumes "containingPolygons lib solidPolygons holePolygon = i # j # rest"
    and "find (\<lambda>p. snd p = boundingBox_y1 lib holePolygon) holePolygon = Some v"
    and "assignHole g lib solidPolygons holePolygon = Inr solidPolygons'"
  shows "\<exists>k \<in> set (i # j # rest). \<exists>edge \<in> set (polygonEdges lib (shape_polygon (solidPolygons ! k))). \<exists>x.
           intersectsYAt lib edge (snd v + grid_h g * (5 / 100)) = Some x \<and> x \<noteq> 0 \<and> x < fst v
           \<and> solidPolygons' = pushHole k holePolygon solidPolygons
           \<and> (\<forall>k' \<in> set (i # j # rest).
                \<forall>edge' \<in> set (polygonEdges lib (shape_polygon (solidPolygons ! k'))).
                \<forall>x'. intersectsYAt lib edge' (snd v + grid_h g * (5 / 100)) = Some x' \<and> x' \<noteq> 0 \<and> x' < fst v
                  \<longrightarrow> x' \<le> x)"
proof -
  let ?tp = "(fst v, snd v + grid_h g * (5 / 100))"
  let ?xs = "intersectsWithEdges lib solidPolygons (i # j # rest) ?tp"
  from assms obtain a more where srt: "sort_key descendingKey ?xs = a # more"
    and res: "solidPolygons' = pushHole (snd a) holePolygon solidPolygons"
    by (auto simp: assignHole_def Let_def split: if_splits list.splits)
  from sort_key_head [OF srt] have a: "a \<in> set ?xs"
    and least: "\<forall>b \<in> set ?xs. descendingKey a \<le> descendingKey b"
    by simp_all
  from a obtain k edge where k: "k \<in> set (i # j # rest)"
    and edge: "edge \<in> set (polygonEdges lib (shape_polygon (solidPolygons ! k)))"
    and az: "a = (intersectsYAt lib edge (snd ?tp), k)" and cl: "crossesLeftOf ?tp (fst a)"
    unfolding intersectsWithEdges_set by blast
  from cl az obtain x where
    x: "intersectsYAt lib edge (snd v + grid_h g * (5 / 100)) = Some x" "x \<noteq> 0" "x < fst v"
    by (auto simp: crossesLeftOf_def split: option.splits)
  have best: "x' \<le> x"
    if "k' \<in> set (i # j # rest)"
       "edge' \<in> set (polygonEdges lib (shape_polygon (solidPolygons ! k')))"
       "intersectsYAt lib edge' (snd v + grid_h g * (5 / 100)) = Some x'" "x' \<noteq> 0" "x' < fst v"
    for k' edge' x'
  proof -
    have "crossesLeftOf ?tp (Some x')" using that(4,5) by (simp add: crossesLeftOf_def)
    with that(1,2,3) have "(Some x', k') \<in> set ?xs"
      unfolding intersectsWithEdges_set by (intro bexI [of _ k'] bexI [of _ edge']) simp_all
    from least [rule_format, OF this] az x(1) show ?thesis by (simp add: descendingKey_def)
  qed
  from res az have res': "solidPolygons' = pushHole k holePolygon solidPolygons" by simp
  show ?thesis
  proof (intro bexI [of _ k] bexI [of _ edge] exI [of _ x] conjI ballI allI impI)
    fix k' edge' x'
    assume "k' \<in> set (i # j # rest)"
      "edge' \<in> set (polygonEdges lib (shape_polygon (solidPolygons ! k')))"
      "intersectsYAt lib edge' (snd v + grid_h g * (5 / 100)) = Some x' \<and> x' \<noteq> 0 \<and> x' < fst v"
    then show "x' \<le> x" using best by blast
  qed (use k edge x res' in simp_all)
qed

text \<open>
  In the nested rings both ring outlines contain the hole of the inner ring. The ray from
  the test point \<open>(200, 305)\<close> to the left crosses the inner outline at \<open>x = 0\<close> and the
  outer outline at \<open>x = -200\<close>.
\<close>
lemma nested_crossings:
  "containsPolygon squareGeometry innerRing innerHole
   \<and> containsPolygon squareGeometry outerRing innerHole
   \<and> ((0, 400), (0, 300)) \<in> set (polygonEdges squareGeometry innerRing)
   \<and> intersectsYAt squareGeometry ((0, 400), (0, 300)) 305 = Some 0
   \<and> ((- 200, 400), (- 200, 300)) \<in> set (polygonEdges squareGeometry outerRing)
   \<and> intersectsYAt squareGeometry ((- 200, 400), (- 200, 300)) 305 = Some (- 200)"
  by code_simp

text \<open>
  C6. The filter \<open>x.intersectsAt && x.intersectsAt < testPoint.x\<close> drops a crossing at
  \<open>x = 0\<close>, since the number 0 is falsy. Painting the nested rings gives the hole of the
  inner ring to the outer ring, whose edge the ray crosses at \<open>x = -200\<close>, and not to the
  inner ring, whose edge it crosses at \<open>x = 0\<close>, the nearest crossing.
\<close>
theorem hole_assigned_past_zero_crossing:
  "shapes (fst (paintCells squareGame squareGeometry nestedRings ''rock'' 1 0 True (mapOf [])))
     = [rockShape outerRing [outerHole, innerHole], rockShape innerRing []]"
  by code_simp

section \<open>Properties of the line of sight\<close>

subsection \<open>The shapes that \<open>calculateLineOfSight\<close> leaves out\<close>

lemma lineOfSightLoop_entries:
  "(shape, regions) \<in> set (lineOfSightLoop g lib p1 p2 inc shs acc) \<Longrightarrow>
   (shape, regions) \<in> set acc \<or>
   (shape \<in> set shs \<and> (\<exists>tt. getTerrainTypeMap g (shape_terrainTypeId shape) = Some tt
       \<and> (tt_usesHeight tt \<or> inc)
       \<and> regions = getIntersectionsOfShape lib shape p1 p2 (tt_usesHeight tt) \<and> regions \<noteq> []))"
proof (induction shs arbitrary: acc)
  case Nil
  then show ?case by simp
next
  case (Cons sh shs)
  show ?case
  proof (cases "getTerrainTypeMap g (shape_terrainTypeId sh)")
    case None
    with Cons.prems have "(shape, regions) \<in> set (lineOfSightLoop g lib p1 p2 inc shs acc)" by simp
    from Cons.IH [OF this] show ?thesis by auto
  next
    case (Some tt)
    let ?rs = "getIntersectionsOfShape lib sh p1 p2 (tt_usesHeight tt)"
    show ?thesis
    proof (cases "(\<not> tt_usesHeight tt \<and> \<not> inc) \<or> ?rs = []")
      case True
      with Some Cons.prems have "(shape, regions) \<in> set (lineOfSightLoop g lib p1 p2 inc shs acc)"
        by (auto simp: Let_def split: if_splits)
      from Cons.IH [OF this] show ?thesis by auto
    next
      case False
      with Some Cons.prems
      have "(shape, regions) \<in> set (lineOfSightLoop g lib p1 p2 inc shs (acc @ [(sh, ?rs)]))"
        by (auto simp: Let_def split: if_splits)
      from Cons.IH [OF this] False Some show ?thesis by auto
    qed
  qed
qed

lemma getIntersectionsOfShape_skips:
  assumes "getIntersectionsOfShape lib shape p1 p2 True \<noteq> []"
    and "shape_elevation shape = Some e" and "shape_height shape = Some h"
  shows "\<not> (e + h < p_h p1 \<and> e + h < p_h p2) \<and> \<not> (p_h p1 < e \<and> p_h p2 < e)"
  using assms
  by (auto simp: getIntersectionsOfShape_def Let_def js_add_def js_less_def split: if_splits)

text \<open>
  C5. Every element \<open>{shape, regions}\<close> of the result of \<open>calculateLineOfSight\<close> is a
  shape of the map whose terrain type is in the catalogue and uses height unless
  \<open>includeNoHeightTerrain\<close> is set; if it uses height, the two end heights are not both
  above the top \<open>elevation + height\<close> of the shape and not both below its elevation; and
  \<open>regions\<close> is the list computed for the shape and is not empty.
\<close>
theorem calculateLineOfSight_omits:
  assumes "(shape, regions) \<in> set (calculateLineOfSight g lib p1 p2 includeNoHeightTerrain s)"
  shows "shape \<in> set (shapes s) \<and>
     (\<exists>tt. getTerrainTypeMap g (shape_terrainTypeId shape) = Some tt
       \<and> (tt_usesHeight tt \<or> includeNoHeightTerrain)
       \<and> (tt_usesHeight tt \<longrightarrow>
            (\<forall>e h. shape_elevation shape = Some e \<longrightarrow> shape_height shape = Some h \<longrightarrow>
               \<not> (e + h < p_h p1 \<and> e + h < p_h p2) \<and> \<not> (p_h p1 < e \<and> p_h p2 < e)))
       \<and> regions = getIntersectionsOfShape lib shape p1 p2 (tt_usesHeight tt)
       \<and> regions \<noteq> [])"
proof -
  from assms
    lineOfSightLoop_entries [of shape regions g lib p1 p2 includeNoHeightTerrain "shapes s" "[]"]
  obtain tt where sh: "shape \<in> set (shapes s)"
    and tt: "getTerrainTypeMap g (shape_terrainTypeId shape) = Some tt"
    and inc: "tt_usesHeight tt \<or> includeNoHeightTerrain"
    and rs: "regions = getIntersectionsOfShape lib shape p1 p2 (tt_usesHeight tt)" "regions \<noteq> []"
    by (auto simp: calculateLineOfSight_def)
  have "\<not> (e + h < p_h p1 \<and> e + h < p_h p2) \<and> \<not> (p_h p1 < e \<and> p_h p2 < e)"
    if "tt_usesHeight tt" "shape_elevation shape = Some e" "shape_height shape = Some h" for e h
    using getIntersectionsOfShape_skips [of lib shape p1 p2 e h] rs that by simp
  with sh tt inc rs show ?thesis by blast
qed

theorem calculateLineOfSight_omits_witness:
  "(rockShape [(0, 0), (100, 0), (100, 100), (0, 100)] [],
      sweepRegions squareGeometry (rockShape [(0, 0), (100, 0), (100, 100), (0, 100)] [])
        \<lparr>p_x = 50, p_y = 50, p_h = 1 / 2\<rparr> \<lparr>p_x = 250, p_y = 50, p_h = 3\<rparr> True)
     \<in> set (calculateLineOfSight squareGame squareGeometry \<lparr>p_x = 50, p_y = 50, p_h = 1 / 2\<rparr>
               \<lparr>p_x = 250, p_y = 50, p_h = 3\<rparr> False (paintedOnce 1 0))
   \<and> calculateLineOfSight squareGame squareGeometry \<lparr>p_x = 50, p_y = 50, p_h = 2\<rparr>
        \<lparr>p_x = 250, p_y = 50, p_h = 3\<rparr> False (paintedOnce 1 0) = []
   \<and> rockShape [(0, 0), (100, 0), (100, 100), (0, 100)] [] \<in> set (shapes (paintedOnce 1 0))"
proof -
  have m: "(rockShape [(0, 0), (100, 0), (100, 100), (0, 100)] [],
      sweepRegions squareGeometry (rockShape [(0, 0), (100, 0), (100, 100), (0, 100)] [])
        \<lparr>p_x = 50, p_y = 50, p_h = 1 / 2\<rparr> \<lparr>p_x = 250, p_y = 50, p_h = 3\<rparr> True)
     \<in> set (calculateLineOfSight squareGame squareGeometry \<lparr>p_x = 50, p_y = 50, p_h = 1 / 2\<rparr>
               \<lparr>p_x = 250, p_y = 50, p_h = 3\<rparr> False (paintedOnce 1 0))"
    by code_simp
  have n: "calculateLineOfSight squareGame squareGeometry \<lparr>p_x = 50, p_y = 50, p_h = 2\<rparr>
        \<lparr>p_x = 250, p_y = 50, p_h = 3\<rparr> False (paintedOnce 1 0) = []"
    by code_simp
  from calculateLineOfSight_omits [OF m] m n show ?thesis by simp
qed

subsection \<open>The flattened regions\<close>

lemma flattenLoop_unrolled:
  "flattenLoop srs bs l acc =
     acc @ concat (map (\<lambda>p. entryList srs (fst p) (snd p)) (zip (l # map Some bs) bs))"
proof (induction bs arbitrary: l acc)
  case Nil
  then show ?case by simp
next
  case (Cons b bs)
  show ?case by (cases "activeRegions srs (pos_t b)") (simp_all add: Cons.IH entryList_def)
qed

lemma flatten_unrolled:
  "flattenLineOfSightIntersectionRegions srs =
     concat (map (\<lambda>p. entryList srs (fst p) (snd p))
       (zip (None # map Some (boundaries srs)) (boundaries srs)))"
  by (simp add: flattenLineOfSightIntersectionRegions_def flattenLoop_unrolled)

lemma flat_end_entry: "f \<in> set (entryList srs l b) \<Longrightarrow> flat_end f = b"
  by (auto simp: entryList_def flatIntersection_def Let_def split: list.splits)

lemma filter_entries_absent:
  "b \<notin> snd ` set ps \<Longrightarrow>
   filter (\<lambda>f. flat_end f = b) (concat (map (\<lambda>p. entryList srs (fst p) (snd p)) ps)) = []"
  by (induction ps) (auto simp: filter_empty_conv dest: flat_end_entry)

lemma filter_entries:
  "distinct (map snd ps) \<Longrightarrow> (l, b) \<in> set ps \<Longrightarrow>
   filter (\<lambda>f. flat_end f = b) (concat (map (\<lambda>p. entryList srs (fst p) (snd p)) ps))
     = entryList srs l b"
proof (induction ps)
  case Nil
  then show ?case by simp
next
  case (Cons p ps)
  show ?case
  proof (cases "snd p = b")
    case True
    from True Cons.prems(1) have nb: "b \<notin> snd ` set ps" by auto
    with True Cons.prems(2) have p: "p = (l, b)" by (cases p) force
    from nb have "filter (\<lambda>f. flat_end f = b)
        (concat (map (\<lambda>p. entryList srs (fst p) (snd p)) ps)) = []"
      by (rule filter_entries_absent)
    moreover have "filter (\<lambda>f. flat_end f = b) (entryList srs l b) = entryList srs l b"
      by (auto simp: filter_id_conv dest: flat_end_entry)
    ultimately show ?thesis using p by simp
  next
    case False
    then have "filter (\<lambda>f. flat_end f = b) (entryList srs (fst p) (snd p)) = []"
      by (auto simp: filter_empty_conv dest: flat_end_entry)
    moreover from False Cons.prems have "(l, b) \<in> set ps" "distinct (map snd ps)" by auto
    ultimately show ?thesis using Cons.IH by simp
  qed
qed

lemma set_distinctBy: "f ` set (distinctBy xs f) = f ` set xs"
proof (induction xs f rule: distinctBy.induct)
  case (1 f)
  then show ?case by simp
next
  case (2 x xs f)
  then show ?case by auto
qed

lemma set_distinctBy_subset: "set (distinctBy xs f) \<subseteq> set xs"
proof (induction xs f rule: distinctBy.induct)
  case (1 f)
  then show ?case by simp
next
  case (2 x xs f)
  then show ?case by auto
qed

lemma distinct_distinctBy: "distinct (map f (distinctBy xs f))"
proof (induction xs f rule: distinctBy.induct)
  case (1 f)
  then show ?case by simp
next
  case (2 x xs f)
  have "f x \<notin> f ` set (distinctBy (filter (\<lambda>y. f y \<noteq> f x) xs) f)"
    using set_distinctBy_subset [of "filter (\<lambda>y. f y \<noteq> f x) xs" f] by auto
  with 2 show ?case by simp
qed

text \<open>The boundaries are sorted by \<open>t\<close>, no two have the same \<open>t\<close>, and every start and end of a region is among them.\<close>
lemma boundaries_sorted: "sorted (map pos_t (boundaries srs))"
  by (simp add: boundaries_def)

lemma boundaries_distinct: "distinct (map pos_t (boundaries srs))"
  unfolding boundaries_def by (simp add: distinct_map_sort_key distinct_distinctBy)

lemma boundaries_distinct_elements: "distinct (boundaries srs)"
  using boundaries_distinct [of srs] by (simp add: distinct_map)

lemma boundaries_set: "pos_t ` set (boundaries srs) = pos_t ` set (allPoints srs)"
  by (simp add: boundaries_def allPoints_def set_distinctBy)

lemma region_points:
  "s \<in> set srs \<Longrightarrow> r \<in> set (snd s) \<Longrightarrow>
   pos_t (region_start r) \<in> pos_t ` set (boundaries srs)
   \<and> pos_t (region_end r) \<in> pos_t ` set (boundaries srs)"
  unfolding boundaries_set by (force simp: allPoints_def)

lemma strict_sorted_nth:
  assumes "sorted ts" "distinct ts" "j < k" "k < length ts"
  shows "ts ! j < (ts ! k :: 'a :: linorder)"
proof -
  have "ts ! j \<le> ts ! k" using assms by (simp add: sorted_nth_mono)
  moreover have "ts ! j \<noteq> ts ! k" using assms by (simp add: nth_eq_iff_index_eq)
  ultimately show ?thesis by simp
qed

text \<open>Below the next of two consecutive boundaries there are only the boundaries up to the first.\<close>
lemma consecutive:
  assumes "sorted ts" "distinct ts" "Suc i < length ts" "x \<in> set ts"
  shows "x < ts ! Suc i \<longleftrightarrow> x \<le> (ts ! i :: 'a :: linorder)"
proof -
  from assms(4) obtain j where j: "j < length ts" "x = ts ! j" by (auto simp: in_set_conv_nth)
  show ?thesis
  proof
    assume "x < ts ! Suc i"
    then have "\<not> Suc i \<le> j" using sorted_nth_mono [OF assms(1), of "Suc i" j] j by auto
    then have "j \<le> i" by simp
    then show "x \<le> ts ! i" using sorted_nth_mono [OF assms(1), of j i] assms(3) j by simp
  next
    assume "x \<le> ts ! i"
    moreover have "ts ! i < ts ! Suc i"
      using strict_sorted_nth [OF assms(1,2), of i "Suc i"] assms(3) by simp
    ultimately show "x < ts ! Suc i" by simp
  qed
qed

lemma first_boundary:
  assumes "sorted ts" "0 < length ts" "x \<in> set ts"
  shows "\<not> x < (ts ! 0 :: 'a :: linorder)"
proof -
  from assms(3) obtain j where j: "j < length ts" "x = ts ! j" by (auto simp: in_set_conv_nth)
  then show ?thesis using sorted_nth_mono [OF assms(1), of 0 j] by auto
qed

text \<open>At the first boundary no region is active.\<close>
lemma activeRegions_first:
  assumes "boundaries srs \<noteq> []"
  shows "activeRegions srs (pos_t (boundaries srs ! 0)) = []"
proof -
  let ?bs = "boundaries srs"
  have "find (\<lambda>r. pos_t (region_start r) < pos_t (?bs ! 0) \<and> pos_t (region_end r) \<ge> pos_t (?bs ! 0))
          (snd s) = None"
    if "s \<in> set srs" for s
  proof -
    have "\<not> pos_t (region_start r) < pos_t (?bs ! 0)" if "r \<in> set (snd s)" for r
    proof -
      from region_points [OF \<open>s \<in> set srs\<close> that]
      have "pos_t (region_start r) \<in> set (map pos_t ?bs)" by simp
      from first_boundary [OF boundaries_sorted _ this] assms show ?thesis by simp
    qed
    then show ?thesis by (auto simp: find_None_iff)
  qed
  then show ?thesis
    by (auto simp: activeRegions_def map_filter_def filter_empty_conv)
qed

text \<open>At a later boundary the active regions are those that span the interval since the boundary before.\<close>
lemma activeRegions_consecutive:
  assumes "Suc i < length (boundaries srs)"
  shows "activeRegions srs (pos_t (boundaries srs ! Suc i)) =
         activeShapes srs (boundaries srs ! i) (boundaries srs ! Suc i)"
proof -
  let ?bs = "boundaries srs"
  have len: "Suc i < length (map pos_t ?bs)" using assms by simp
  have "find (\<lambda>r. pos_t (region_start r) < pos_t (?bs ! Suc i)
                  \<and> pos_t (region_end r) \<ge> pos_t (?bs ! Suc i)) (snd s)
      = find (\<lambda>r. spans r (?bs ! i) (?bs ! Suc i)) (snd s)"
    if "s \<in> set srs" for s
  proof (rule find_cong [OF refl])
    fix r assume "r \<in> set (snd s)"
    from region_points [OF \<open>s \<in> set srs\<close> this]
    have "pos_t (region_start r) \<in> set (map pos_t ?bs)" by simp
    from consecutive [OF boundaries_sorted boundaries_distinct len this] assms
    show "(pos_t (region_start r) < pos_t (?bs ! Suc i) \<and> pos_t (region_end r) \<ge> pos_t (?bs ! Suc i))
        = spans r (?bs ! i) (?bs ! Suc i)"
      by (auto simp: spans_def)
  qed
  then show ?thesis
    unfolding activeRegions_def activeShapes_def map_filter_def
    by (intro arg_cong2 [where f = map] filter_cong map_cong refl) auto
qed

lemma activeShapes_from: "x \<in> set (activeShapes srs a b) \<Longrightarrow> fst x \<in> fst ` set srs"
  by (force simp: activeShapes_def map_filter_def)

lemma fold_js_min:
  "\<forall>y \<in> set ys. y \<noteq> None \<Longrightarrow>
   \<exists>m. fold js_min ys (Some x) = Some m \<and> (m = x \<or> Some m \<in> set ys) \<and> m \<le> x
      \<and> (\<forall>y. Some y \<in> set ys \<longrightarrow> m \<le> y)"
proof (induction ys arbitrary: x)
  case Nil
  then show ?case by simp
next
  case (Cons y ys)
  then obtain v where y: "y = Some v" by auto
  from Cons.prems have "\<forall>y \<in> set ys. y \<noteq> None" by simp
  from Cons.IH [OF this, of "min v x"] obtain m where
    m: "fold js_min ys (Some (min v x)) = Some m" "m = min v x \<or> Some m \<in> set ys" "m \<le> min v x"
       "\<forall>y. Some y \<in> set ys \<longrightarrow> m \<le> y"
    by blast
  have "fold js_min (y # ys) (Some x) = Some m" using m(1) y by (simp add: js_min_def)
  moreover have "m = x \<or> Some m \<in> set (y # ys)"
    using m(2) y by (auto simp: min_def split: if_splits)
  moreover have "m \<le> x" using m(3) by simp
  moreover have "\<forall>z. Some z \<in> set (y # ys) \<longrightarrow> m \<le> z" using m(3,4) y by auto
  ultimately show ?case by blast
qed

lemma fold_js_max:
  "\<forall>y \<in> set ys. y \<noteq> None \<Longrightarrow>
   \<exists>m. fold js_max ys (Some x) = Some m \<and> (m = x \<or> Some m \<in> set ys) \<and> x \<le> m
      \<and> (\<forall>y. Some y \<in> set ys \<longrightarrow> y \<le> m)"
proof (induction ys arbitrary: x)
  case Nil
  then show ?case by simp
next
  case (Cons y ys)
  then obtain v where y: "y = Some v" by auto
  from Cons.prems have "\<forall>y \<in> set ys. y \<noteq> None" by simp
  from Cons.IH [OF this, of "max v x"] obtain m where
    m: "fold js_max ys (Some (max v x)) = Some m" "m = max v x \<or> Some m \<in> set ys" "max v x \<le> m"
       "\<forall>y. Some y \<in> set ys \<longrightarrow> y \<le> m"
    by blast
  have "fold js_max (y # ys) (Some x) = Some m" using m(1) y by (simp add: js_max_def)
  moreover have "m = x \<or> Some m \<in> set (y # ys)"
    using m(2) y by (auto simp: max_def split: if_splits)
  moreover have "x \<le> m" using m(3) by simp
  moreover have "\<forall>z. Some z \<in> set (y # ys) \<longrightarrow> z \<le> m" using m(3,4) y by auto
  ultimately show ?case by blast
qed

text \<open>The elevation and the height of a pushed object, when the active shapes have numbers for both.\<close>
lemma flatIntersection_fields:
  assumes "\<forall>x \<in> set (a # as). shape_elevation (fst x) \<noteq> None \<and> shape_height (fst x) \<noteq> None"
  shows "\<exists>e u. flat_elevation (flatIntersection l b a as) = Some e \<and> lowest (a # as) e
           \<and> flat_height (flatIntersection l b a as) = Some (u - e) \<and> highest (a # as) u"
proof -
  from assms obtain e0 h0 where
    a: "shape_elevation (fst a) = Some e0" "shape_height (fst a) = Some h0"
    by auto
  let ?es = "map (\<lambda>r. shape_elevation (fst r)) as"
  let ?ts = "map (\<lambda>r. js_add (shape_height (fst r)) (shape_elevation (fst r))) as"
  have "\<forall>y \<in> set ?es. y \<noteq> None" using assms by auto
  from fold_js_min [OF this, of e0] obtain e where
    e: "fold js_min ?es (Some e0) = Some e" "e = e0 \<or> Some e \<in> set ?es" "e \<le> e0"
       "\<forall>y. Some y \<in> set ?es \<longrightarrow> e \<le> y" by blast
  have "\<forall>y \<in> set ?ts. y \<noteq> None" using assms by (auto simp: js_add_def)
  from fold_js_max [OF this, of "h0 + e0"] obtain u where
    u: "fold js_max ?ts (Some (h0 + e0)) = Some u" "u = h0 + e0 \<or> Some u \<in> set ?ts" "h0 + e0 \<le> u"
       "\<forall>y. Some y \<in> set ?ts \<longrightarrow> y \<le> u" by blast
  have low: "lowest (a # as) e"
    unfolding lowest_def
  proof (intro conjI ballI allI impI)
    from e(2) show "\<exists>x \<in> set (a # as). shape_elevation (fst x) = Some e"
    proof
      assume "e = e0"
      with a(1) show ?thesis by simp
    next
      assume "Some e \<in> set ?es"
      then obtain x where "x \<in> set as" "shape_elevation (fst x) = Some e" by auto
      then show ?thesis by auto
    qed
  next
    fix x e' assume "x \<in> set (a # as)" "shape_elevation (fst x) = Some e'"
    then show "e \<le> e'" using e(3,4) a(1) by (cases "x = a") force+
  qed
  have high: "highest (a # as) u"
    unfolding highest_def
  proof (intro conjI ballI allI impI)
    from u(2)
    show "\<exists>x \<in> set (a # as). \<exists>e h. shape_elevation (fst x) = Some e
            \<and> shape_height (fst x) = Some h \<and> u = e + h"
    proof
      assume "u = h0 + e0"
      then show ?thesis using a by (auto simp: add.commute)
    next
      assume "Some u \<in> set ?ts"
      then obtain x where
        x: "x \<in> set as" "js_add (shape_height (fst x)) (shape_elevation (fst x)) = Some u"
        by auto
      with assms obtain e' h' where
        eh: "shape_elevation (fst x) = Some e'" "shape_height (fst x) = Some h'" by auto
      with x(2) have "u = e' + h'" by (simp add: js_add_def add.commute)
      with eh x(1) show ?thesis by (intro bexI [of _ x]) auto
    qed
  next
    fix x e' h'
    assume x: "x \<in> set (a # as)" "shape_elevation (fst x) = Some e'" "shape_height (fst x) = Some h'"
    show "e' + h' \<le> u"
    proof (cases "x = a")
      case True
      with x a u(3) show ?thesis by (simp add: add.commute)
    next
      case False
      with x have "x \<in> set as" by simp
      moreover have "js_add (shape_height (fst x)) (shape_elevation (fst x)) = Some (h' + e')"
        using x by (simp add: js_add_def)
      ultimately have "Some (h' + e') \<in> set ?ts" by force
      with u(4) show ?thesis by (simp add: add.commute)
    qed
  qed
  have "flat_elevation (flatIntersection l b a as) = Some e"
    using e(1) a by (simp add: flatIntersection_def Math_min_def Let_def)
  moreover have "flat_height (flatIntersection l b a as) = Some (u - e)"
    using e(1) u(1) a
    by (simp add: flatIntersection_def Math_min_def Math_max_def Let_def js_sub_def js_add_def)
  ultimately show ?thesis using low high by blast
qed

text \<open>The elements of the result that end at the second of two consecutive boundaries.\<close>
lemma flatten_at:
  assumes "Suc i < length (boundaries srs)"
  shows "filter (\<lambda>f. flat_end f = boundaries srs ! Suc i) (flattenLineOfSightIntersectionRegions srs)
      = (case activeShapes srs (boundaries srs ! i) (boundaries srs ! Suc i) of
           [] \<Rightarrow> []
         | a # as \<Rightarrow> [flatIntersection (Some (boundaries srs ! i)) (boundaries srs ! Suc i) a as])"
proof -
  let ?bs = "boundaries srs"
  let ?ps = "zip (None # map Some ?bs) ?bs"
  have len: "Suc i < length ?ps" using assms by simp
  have "?ps ! Suc i = (Some (?bs ! i), ?bs ! Suc i)" using assms by simp
  then have mem: "(Some (?bs ! i), ?bs ! Suc i) \<in> set ?ps" using len by (metis nth_mem)
  have "map snd ?ps = ?bs" by (simp add: map_snd_zip_take)
  then have "distinct (map snd ?ps)" using boundaries_distinct_elements by simp
  from filter_entries [OF this mem]
  show ?thesis
    by (simp add: flatten_unrolled entryList_def activeRegions_consecutive [OF assms])
qed

text \<open>Every element of the result ends at a boundary that has a boundary before it.\<close>
lemma flatten_ends:
  assumes "f \<in> set (flattenLineOfSightIntersectionRegions srs)"
  shows "\<exists>i. Suc i < length (boundaries srs) \<and> flat_end f = boundaries srs ! Suc i"
proof -
  let ?bs = "boundaries srs"
  let ?ps = "zip (None # map Some ?bs) ?bs"
  from assms obtain p where p: "p \<in> set ?ps" "f \<in> set (entryList srs (fst p) (snd p))"
    by (auto simp: flatten_unrolled)
  then obtain k where k: "k < length ?bs" "snd p = ?bs ! k"
    by (metis in_set_conv_nth in_set_zipE prod.collapse)
  have "k \<noteq> 0"
  proof
    assume "k = 0"
    with k have "activeRegions srs (pos_t (snd p)) = []" using activeRegions_first [of srs] by auto
    with p(2) show False by (simp add: entryList_def)
  qed
  then obtain i where "k = Suc i" by (cases k) auto
  with k flat_end_entry [OF p(2)] show ?thesis by auto
qed

text \<open>
  C1. Take shapes whose elevation and height are numbers, each with its regions, and two
  consecutive boundaries, the \<open>i\<close>-th and the next, of the sorted distinct \<open>t\<close> values.
  The first has the smaller \<open>t\<close>. If no shape has a region spanning the interval, the
  flattened list has no element ending at the second boundary. Otherwise it has exactly one:
  it starts at the first boundary, its elevation is the minimum elevation among the active
  shapes, its height is the maximum of elevation plus height among them minus that minimum,
  its terrain type is that of the first active shape, and it is skimmed exactly when one
  shape is active and its region there is a skim. Every element of the flattened list ends
  at the second boundary of such an interval.
\<close>
theorem flatten_interval:
  assumes "\<forall>s \<in> set shapeRegions. shape_elevation (fst s) \<noteq> None \<and> shape_height (fst s) \<noteq> None"
    and "Suc i < length (boundaries shapeRegions)"
  shows "pos_t (boundaries shapeRegions ! i) < pos_t (boundaries shapeRegions ! Suc i) \<and>
    (case activeShapes shapeRegions (boundaries shapeRegions ! i) (boundaries shapeRegions ! Suc i) of
       [] \<Rightarrow>
         filter (\<lambda>f. flat_end f = boundaries shapeRegions ! Suc i)
           (flattenLineOfSightIntersectionRegions shapeRegions) = []
     | a # as \<Rightarrow>
         (\<exists>f e u.
            filter (\<lambda>f. flat_end f = boundaries shapeRegions ! Suc i)
              (flattenLineOfSightIntersectionRegions shapeRegions) = [f]
            \<and> flat_start f = Some (boundaries shapeRegions ! i)
            \<and> flat_elevation f = Some e \<and> lowest (a # as) e
            \<and> flat_height f = Some (u - e) \<and> highest (a # as) u
            \<and> flat_terrainTypeId f = shape_terrainTypeId (fst a)
            \<and> flat_skimmed f = (as = [] \<and> skimmed (snd a)))) \<and>
    (\<forall>f \<in> set (flattenLineOfSightIntersectionRegions shapeRegions).
       \<exists>j. Suc j < length (boundaries shapeRegions) \<and> flat_end f = boundaries shapeRegions ! Suc j)"
proof -
  let ?bs = "boundaries shapeRegions"
  let ?act = "activeShapes shapeRegions (?bs ! i) (?bs ! Suc i)"
  have lt: "pos_t (?bs ! i) < pos_t (?bs ! Suc i)"
    using strict_sorted_nth [OF boundaries_sorted boundaries_distinct, of i "Suc i" shapeRegions]
      assms(2)
    by simp
  have ends: "\<forall>f \<in> set (flattenLineOfSightIntersectionRegions shapeRegions).
       \<exists>j. Suc j < length ?bs \<and> flat_end f = ?bs ! Suc j"
    using flatten_ends by blast
  show ?thesis
  proof (cases ?act)
    case Nil
    with flatten_at [OF assms(2)] lt ends show ?thesis by simp
  next
    case (Cons a as)
    let ?f = "flatIntersection (Some (?bs ! i)) (?bs ! Suc i) a as"
    have "\<forall>x \<in> set (a # as). shape_elevation (fst x) \<noteq> None \<and> shape_height (fst x) \<noteq> None"
      using activeShapes_from [of _ shapeRegions "?bs ! i" "?bs ! Suc i"] assms(1) Cons by force
    from flatIntersection_fields [OF this, of "Some (?bs ! i)" "?bs ! Suc i"] obtain e u where
      "flat_elevation ?f = Some e" "lowest (a # as) e"
      "flat_height ?f = Some (u - e)" "highest (a # as) u"
      by blast
    moreover have "flat_start ?f = Some (?bs ! i)"
      "flat_terrainTypeId ?f = shape_terrainTypeId (fst a)"
      "flat_skimmed ?f = (as = [] \<and> skimmed (snd a))"
      by (simp_all add: flatIntersection_def Let_def)
    moreover have "filter (\<lambda>f. flat_end f = ?bs ! Suc i)
        (flattenLineOfSightIntersectionRegions shapeRegions) = [?f]"
      using flatten_at [OF assms(2)] Cons by simp
    ultimately have "\<exists>f e u.
            filter (\<lambda>f. flat_end f = ?bs ! Suc i)
              (flattenLineOfSightIntersectionRegions shapeRegions) = [f]
            \<and> flat_start f = Some (?bs ! i)
            \<and> flat_elevation f = Some e \<and> lowest (a # as) e
            \<and> flat_height f = Some (u - e) \<and> highest (a # as) u
            \<and> flat_terrainTypeId f = shape_terrainTypeId (fst a)
            \<and> flat_skimmed f = (as = [] \<and> skimmed (snd a))"
      by blast
    with Cons lt ends show ?thesis by simp
  qed
qed

lemma overlapping_boundaries:
  "boundaries overlapping = [rayAt 0, rayAt (1 / 4), rayAt (3 / 4), rayAt 1]"
  by code_simp

lemma overlapping_active:
  "activeShapes overlapping (rayAt (1 / 4)) (rayAt (3 / 4)) =
     [(lowRock, \<lparr>region_start = rayAt 0, region_end = rayAt (3 / 4), skimmed = True\<rparr>),
      (highRock, \<lparr>region_start = rayAt (1 / 4), region_end = rayAt 1, skimmed = True\<rparr>)]"
  by code_simp

text \<open>
  Two shapes spanning the elevations 0 to 3 and 2 to 5, both active between \<open>t = 1/4\<close> and
  \<open>t = 3/4\<close>: the flattened element there has elevation 0 and height 5.
\<close>
theorem flatten_interval_witness:
  "list_all (\<lambda>s. shape_elevation (fst s) \<noteq> None \<and> shape_height (fst s) \<noteq> None) overlapping
   \<and> Suc 1 < length (boundaries overlapping)
   \<and> (\<exists>f. filter (\<lambda>f. flat_end f = rayAt (3 / 4)) (flattenLineOfSightIntersectionRegions overlapping) = [f]
          \<and> flat_start f = Some (rayAt (1 / 4))
          \<and> flat_elevation f = Some 0 \<and> flat_height f = Some 5
          \<and> flat_terrainTypeId f = ''rock'' \<and> \<not> flat_skimmed f)"
proof -
  have num: "\<forall>s \<in> set overlapping. shape_elevation (fst s) \<noteq> None \<and> shape_height (fst s) \<noteq> None"
    by (simp add: overlapping_def lowRock_def highRock_def)
  have len: "Suc 1 < length (boundaries overlapping)" by (simp add: overlapping_boundaries)
  have b1: "boundaries overlapping ! 1 = rayAt (1 / 4)"
    and b2: "boundaries overlapping ! Suc 1 = rayAt (3 / 4)"
    by (simp_all add: overlapping_boundaries)
  have low: "lowest [(lowRock, r1), (highRock, r2)] e \<Longrightarrow> e = 0" for r1 r2 e
    by (auto simp: lowest_def lowRock_def highRock_def)
  have high: "highest [(lowRock, r1), (highRock, r2)] u \<Longrightarrow> u = 5" for r1 r2 u
    by (auto simp: highest_def lowRock_def highRock_def)
  from flatten_interval [OF num len] obtain f e u where
    f: "filter (\<lambda>f. flat_end f = rayAt (3 / 4)) (flattenLineOfSightIntersectionRegions overlapping) = [f]"
      "flat_start f = Some (rayAt (1 / 4))" "flat_elevation f = Some e" "flat_height f = Some (u - e)"
      "lowest [(lowRock, \<lparr>region_start = rayAt 0, region_end = rayAt (3 / 4), skimmed = True\<rparr>),
               (highRock, \<lparr>region_start = rayAt (1 / 4), region_end = rayAt 1, skimmed = True\<rparr>)] e"
      "highest [(lowRock, \<lparr>region_start = rayAt 0, region_end = rayAt (3 / 4), skimmed = True\<rparr>),
               (highRock, \<lparr>region_start = rayAt (1 / 4), region_end = rayAt 1, skimmed = True\<rparr>)] u"
      "flat_terrainTypeId f = shape_terrainTypeId lowRock" "\<not> flat_skimmed f"
    unfolding b1 b2 overlapping_active by auto
  from low [OF f(5)] high [OF f(6)] f num len show ?thesis
    by (auto simp: lowRock_def list_all_iff)
qed

end
